theory Spec2Isabelle
  imports Complex_Main "HOL-Library.AList" "HOL-Library.Multiset"
begin

section \<open>Data model\<close>

text \<open>
  A Python \<open>str\<close> is a sequence of Unicode code points; a code point is modelled as a
  natural number and a string as a list of them.  A Python \<open>dict\<close> keeps its keys in
  insertion order, and that order is observable here (the vocabulary is
  \<open>list(self.df_table.keys())\<close>), so a dictionary is an association list in insertion
  order: \<open>map_of\<close> looks a key up, \<open>AList.update\<close> overwrites the value of a key in place
  or appends a new key at the end, exactly as an assignment \<open>d[k] = v\<close> does.
  Python's \<open>int\<close> is \<open>int\<close>; Python's \<open>float\<close> is idealised as \<open>real\<close>
  (rounding, infinities and NaN are not modelled).
\<close>

type_synonym str = "nat list"

type_synonym 'v dict = "(str \<times> 'v) list"

datatype error = KeyError | ZeroDivisionError | ValueError | IndexError

section \<open>The tokenizer (\<open>TFIDF_Engine.tokenize\<close>, lines 155-193)\<close>

text \<open>\<open>re.match("[a-zA-Z0-9]", str(c)) != None\<close>: the three ASCII ranges of the class.\<close>

definition re_match_alnum :: "nat \<Rightarrow> bool" where
  "re_match_alnum c =
     ((97 \<le> c \<and> c \<le> 122) \<or> (65 \<le> c \<and> c \<le> 90) \<or> (48 \<le> c \<and> c \<le> 57))"

text \<open>
  The characters that \<open>str.strip()\<close> removes, that is the code points for which
  \<open>str.isspace()\<close> holds: TAB, LF, VT, FF, CR, the separators FS, GS, RS, US, SPACE, NEL,
  NBSP and the Unicode space separators.
\<close>

definition py_isspace :: "nat \<Rightarrow> bool" where
  "py_isspace c =
     ((9 \<le> c \<and> c \<le> 13) \<or> (28 \<le> c \<and> c \<le> 32) \<or> c = 133 \<or> c = 160 \<or> c = 5760
      \<or> (8192 \<le> c \<and> c \<le> 8202) \<or> c = 8232 \<or> c = 8233 \<or> c = 8239 \<or> c = 8287
      \<or> c = 12288)"

text \<open>\<open>c.strip()\<close> for the one-character string \<open>c\<close>.\<close>

definition strip1 :: "nat \<Rightarrow> str" where
  "strip1 c = (if py_isspace c then [] else [c])"

text \<open>
  \<open>token.lower()\<close>.  The tokenizer lower-cases only runs of the characters it accumulates
  (ASCII letters and digits, apostrophe, underscore, hyphen), and on those \<open>str.lower\<close> maps
  \<open>A..Z\<close> to \<open>a..z\<close> and leaves every other character alone.
\<close>

definition lower :: "str \<Rightarrow> str" where
  "lower token = map (\<lambda>c. if 65 \<le> c \<and> c \<le> 90 then c + 32 else c) token"

text \<open>
  The loop \<open>for c in text\<close> of lines 167-180, with its two variables \<open>tokens\<close> and
  \<open>token\<close> passed along; \<open>tokens.append(x)\<close> is \<open>tokens @ [x]\<close>.
\<close>

fun tokenize_scan :: "str list \<Rightarrow> str \<Rightarrow> str \<Rightarrow> str list \<times> str" where
  "tokenize_scan tokens token [] = (tokens, token)"
| "tokenize_scan tokens token (c # rest) =
     (if re_match_alnum c \<or> c = 39 \<or> c = 95 \<or> c = 45
      then tokenize_scan tokens (token @ [c]) rest
      else
        (let tokens1 = (if token \<noteq> [] then tokens @ [lower token] else tokens);
             token1 = (if token \<noteq> [] then [] else token);
             tokens2 = (if strip1 c \<noteq> [] then tokens1 @ [strip1 c] else tokens1)
         in tokenize_scan tokens2 token1 rest))"

text \<open>
  Lines 188-191, the body of \<open>for t in tokens\<close>: \<open>d_tokens[t] += 1\<close> when \<open>t\<close> is a
  key, \<open>d_tokens[t] = 1\<close> otherwise.
\<close>

definition dict_count :: "int dict \<Rightarrow> str \<Rightarrow> int dict" where
  "dict_count d t =
     (case map_of d t of
        Some n \<Rightarrow> AList.update t (n + 1) d
      | None \<Rightarrow> AList.update t 1 d)"

fun count_tokens :: "int dict \<Rightarrow> str list \<Rightarrow> int dict" where
  "count_tokens d_tokens [] = d_tokens"
| "count_tokens d_tokens (t # ts) = count_tokens (dict_count d_tokens t) ts"

definition tokenize :: "str \<Rightarrow> int dict" where
  "tokenize text =
     (let (tokens, token) = tokenize_scan [] [] text;
          tokens' = (if token \<noteq> [] then tokens @ [lower token] else tokens)
      in count_tokens [] tokens')"

subsection \<open>The reference scan of the specification\<close>

text \<open>
  Written from the specification's words, to be compared with \<open>tokenize\<close>: a run is
  accumulated while each character is ASCII alphanumeric, apostrophe, underscore or
  hyphen; any other character emits the pending run lower-cased (if non-empty) and then
  itself, as a one-character token, unless it is whitespace; the end of the text flushes
  the pending run; the emitted tokens are counted.
\<close>

definition run_char :: "nat \<Rightarrow> bool" where
  "run_char c = (c \<in> {48..57} \<union> {65..90} \<union> {97..122} \<union> {39, 95, 45})"

definition flush_run :: "str \<Rightarrow> str list" where
  "flush_run run = (if run = [] then [] else [lower run])"

fun reference_scan :: "str \<Rightarrow> str \<Rightarrow> str list" where
  "reference_scan run [] = flush_run run"
| "reference_scan run (c # cs) =
     (if run_char c then reference_scan (run @ [c]) cs
      else flush_run run @ (if py_isspace c then [] else [[c]]) @ reference_scan [] cs)"

definition reference_counts :: "str \<Rightarrow> (str \<rightharpoonup> int)" where
  "reference_counts text =
     (\<lambda>t. if t \<in> set (reference_scan [] text)
          then Some (int (count_list (reference_scan [] text) t)) else None)"

section \<open>Documents, the engine and the object store\<close>

text \<open>
  \<open>Document\<close> objects are mutable and shared by reference: the engine's list
  \<open>documents\<close> holds references, \<open>create_term_vector\<close> assigns to the attributes of the
  object it is given, and \<open>get_results\<close> builds a new object for the query.  The objects
  therefore live in a store, a list addressed by position; a reference is a position,
  and \<open>Document()\<close> allocates at the end.  Python never holds a dangling reference, so
  the properties below are about references inside the store.  The attribute \<open>text\<close>
  is the field \<open>doc_text\<close>.
\<close>

record Document =
  doc_text :: str
  terms :: "int dict"
  term_vector :: "real list"

type_synonym ref = nat

record TFIDF_Engine =
  corpus_location :: string
  documents :: "ref list"
  N :: int
  df_table :: "int dict"
  term_vector_words :: "str list"

record state =
  store :: "Document list"
  engine :: TFIDF_Engine

text \<open>\<open>Document.__init__\<close> (lines 15-20) and \<open>TFIDF_Engine.__init__\<close> (lines 38-43).\<close>

definition Document_init :: Document where
  "Document_init = \<lparr>doc_text = [], terms = [], term_vector = []\<rparr>"

definition TFIDF_Engine_init :: state where
  "TFIDF_Engine_init =
     \<lparr>store = [],
      engine = \<lparr>corpus_location = ''news_corpus'', documents = [], N = 0, df_table = [],
                term_vector_words = []\<rparr>\<rparr>"

definition new_Document :: "state \<Rightarrow> ref \<times> state" where
  "new_Document s = (length (store s), s\<lparr>store := store s @ [Document_init]\<rparr>)"

text \<open>An assignment to attributes of the object at reference \<open>d\<close>.\<close>

definition update_doc :: "state \<Rightarrow> ref \<Rightarrow> (Document \<Rightarrow> Document) \<Rightarrow> state" where
  "update_doc s d f = s\<lparr>store := (store s)[d := f (store s ! d)]\<rparr>"

text \<open>\<open>Document.__str__\<close> (line 25): the first 500 characters.\<close>

definition Document_str :: "Document \<Rightarrow> str" where
  "Document_str d = take 500 (doc_text d)"

section \<open>Loading (\<open>read_files\<close>, lines 51-86)\<close>

text \<open>
  The file system and the encoding detection are outside the model: \<open>read_files\<close> takes
  the decoded texts of the files that were read without an exception, in the order of
  the directory listing.  For each of them lines 76-79 run, and line 83 sets \<open>N\<close>.
\<close>

fun read_files_loop :: "state \<Rightarrow> str list \<Rightarrow> state" where
  "read_files_loop s [] = s"
| "read_files_loop s (file_text # files) =
     (let (doc, s1) = new_Document s;
          s2 = update_doc s1 doc (\<lambda>d. d\<lparr>doc_text := file_text\<rparr>);
          s3 = update_doc s2 doc (\<lambda>d. d\<lparr>terms := tokenize file_text\<rparr>);
          s4 = s3\<lparr>engine := (engine s3)\<lparr>documents := documents (engine s3) @ [doc]\<rparr>\<rparr>
      in read_files_loop s4 files)"

definition read_files :: "state \<Rightarrow> str list \<Rightarrow> state" where
  "read_files s files =
     (let s' = read_files_loop s files
      in s'\<lparr>engine := (engine s')\<lparr>N := int (length (documents (engine s')))\<rparr>\<rparr>)"

section \<open>The document-frequency table (\<open>create_df_table\<close>, lines 88-95)\<close>

text \<open>
  The inner loop \<open>for term in doc.terms\<close> runs over the keys of the dictionary in
  insertion order; the outer loop runs over the documents.  Nothing in the loops raises
  and nothing else reads \<open>self.df_table\<close> meanwhile, so the table is passed along and
  stored at the end, together with the list of its keys.
\<close>

fun create_df_table_terms :: "int dict \<Rightarrow> str list \<Rightarrow> int dict" where
  "create_df_table_terms df [] = df"
| "create_df_table_terms df (w # ws) = create_df_table_terms (dict_count df w) ws"

fun create_df_table_docs :: "Document list \<Rightarrow> int dict \<Rightarrow> ref list \<Rightarrow> int dict" where
  "create_df_table_docs st df [] = df"
| "create_df_table_docs st df (doc # docs) =
     create_df_table_docs st (create_df_table_terms df (map fst (terms (st ! doc)))) docs"

definition create_df_table :: "state \<Rightarrow> state" where
  "create_df_table s =
     (let df = create_df_table_docs (store s) (df_table (engine s)) (documents (engine s))
      in s\<lparr>engine := (engine s)\<lparr>df_table := df, term_vector_words := map fst df\<rparr>\<rparr>)"

section \<open>Term vectors (\<open>create_term_vector\<close>, lines 97-109)\<close>

text \<open>
  The operations that can raise: a subscript on a missing key (\<open>KeyError\<close>), the true
  division \<open>/\<close> of two integers (\<open>ZeroDivisionError\<close>) and \<open>math.log\<close> of an argument that
  is not positive (\<open>ValueError\<close>).
\<close>

definition dict_get :: "'v dict \<Rightarrow> str \<Rightarrow> error + 'v" where
  "dict_get d k = (case map_of d k of None \<Rightarrow> Inl KeyError | Some v \<Rightarrow> Inr v)"

definition py_truediv :: "int \<Rightarrow> int \<Rightarrow> error + real" where
  "py_truediv a b = (if b = 0 then Inl ZeroDivisionError else Inr (real_of_int a / real_of_int b))"

definition math_log :: "real \<Rightarrow> error + real" where
  "math_log x = (if x \<le> 0 then Inl ValueError else Inr (ln x))"

text \<open>The value that one iteration of the loop of lines 99-105 appends for the word \<open>w\<close>.\<close>

definition term_weight :: "TFIDF_Engine \<Rightarrow> int dict \<Rightarrow> str \<Rightarrow> error + real" where
  "term_weight self d_terms w =
     (if w \<in> fst ` set d_terms then
        (case dict_get d_terms w of Inl e \<Rightarrow> Inl e | Inr c \<Rightarrow>
         case math_log (real_of_int c) of Inl e \<Rightarrow> Inl e | Inr l \<Rightarrow>
         let tf = 1 + l in
         case dict_get (df_table self) w of Inl e \<Rightarrow> Inl e | Inr k \<Rightarrow>
         case py_truediv (N self) k of Inl e \<Rightarrow> Inl e | Inr q \<Rightarrow>
         case math_log q of Inl e \<Rightarrow> Inl e | Inr idf \<Rightarrow>
         Inr (tf * idf))
      else Inr 0)"

fun create_term_vector_loop :: "state \<Rightarrow> ref \<Rightarrow> str list \<Rightarrow> (error + unit) \<times> state" where
  "create_term_vector_loop s d [] = (Inr (), s)"
| "create_term_vector_loop s d (w # ws) =
     (case term_weight (engine s) (terms (store s ! d)) w of
        Inl e \<Rightarrow> (Inl e, s)
      | Inr x \<Rightarrow>
          create_term_vector_loop
            (update_doc s d (\<lambda>doc. doc\<lparr>term_vector := term_vector doc @ [x]\<rparr>)) d ws)"

definition create_term_vector :: "state \<Rightarrow> ref \<Rightarrow> (error + unit) \<times> state" where
  "create_term_vector s d =
     create_term_vector_loop (update_doc s d (\<lambda>doc. doc\<lparr>term_vector := []\<rparr>)) d
       (term_vector_words (engine s))"

fun create_term_vectors_loop :: "state \<Rightarrow> ref list \<Rightarrow> (error + unit) \<times> state" where
  "create_term_vectors_loop s [] = (Inr (), s)"
| "create_term_vectors_loop s (doc # docs) =
     (case create_term_vector s doc of
        (Inl e, s') \<Rightarrow> (Inl e, s')
      | (Inr _, s') \<Rightarrow> create_term_vectors_loop s' docs)"

definition create_term_vectors :: "state \<Rightarrow> (error + unit) \<times> state" where
  "create_term_vectors s = create_term_vectors_loop s (documents (engine s))"

section \<open>Cosine similarity and ranking (lines 111-132)\<close>

definition math_sqrt :: "real \<Rightarrow> error + real" where
  "math_sqrt x = (if x < 0 then Inl ValueError else Inr (sqrt x))"

definition py_div :: "real \<Rightarrow> real \<Rightarrow> error + real" where
  "py_div a b = (if b = 0 then Inl ZeroDivisionError else Inr (a / b))"

definition calculate_cosine_sim :: "state \<Rightarrow> ref \<Rightarrow> ref \<Rightarrow> error + real" where
  "calculate_cosine_sim s d1 d2 =
     (let v1 = term_vector (store s ! d1);
          v2 = term_vector (store s ! d2);
          dot_product = sum_list (map (\<lambda>(a, b). a * b) (zip v1 v2))
      in case math_sqrt (sum_list (map (\<lambda>a. a * a) v1)) of Inl e \<Rightarrow> Inl e | Inr magnitude_d1 \<Rightarrow>
         case math_sqrt (sum_list (map (\<lambda>b. b * b) v2)) of Inl e \<Rightarrow> Inl e | Inr magnitude_d2 \<Rightarrow>
         if magnitude_d1 = 0 \<or> magnitude_d2 = 0 then Inr 0
         else py_div dot_product (magnitude_d1 * magnitude_d2))"

text \<open>
  \<open>results.sort(key=..., reverse=True)\<close>.  Python's sort is stable, and with
  \<open>reverse=True\<close> it reverses the list, sorts it stably in ascending order of the keys
  and reverses the outcome, which keeps elements with equal keys in their original
  order.  \<open>sort_key\<close> is the stable ascending sort.
\<close>

definition sort_reverse :: "('a \<Rightarrow> real) \<Rightarrow> 'a list \<Rightarrow> 'a list" where
  "sort_reverse key xs = rev (sort_key key (rev xs))"

fun get_results_loop ::
  "state \<Rightarrow> ref \<Rightarrow> (nat \<times> ref) list \<Rightarrow> (real \<times> nat) list \<Rightarrow> error + (real \<times> nat) list" where
  "get_results_loop s query_doc [] results = Inr results"
| "get_results_loop s query_doc ((idx, doc) # rest) results =
     (case calculate_cosine_sim s query_doc doc of
        Inl e \<Rightarrow> Inl e
      | Inr similarity \<Rightarrow> get_results_loop s query_doc rest (results @ [(similarity, idx)]))"

definition get_results :: "state \<Rightarrow> str \<Rightarrow> (error + (real \<times> nat) list) \<times> state" where
  "get_results s query =
     (let (query_doc, s1) = new_Document s;
          s2 = update_doc s1 query_doc (\<lambda>d. d\<lparr>doc_text := query\<rparr>);
          s3 = update_doc s2 query_doc (\<lambda>d. d\<lparr>terms := tokenize query\<rparr>)
      in case create_term_vector s3 query_doc of
           (Inl e, s4) \<Rightarrow> (Inl e, s4)
         | (Inr _, s4) \<Rightarrow>
             (case get_results_loop s4 query_doc (enumerate 0 (documents (engine s4))) [] of
                Inl e \<Rightarrow> (Inl e, s4)
              | Inr results \<Rightarrow> (Inr (sort_reverse fst results), s4)))"

section \<open>The query loop (\<open>query_loop\<close>, lines 134-153)\<close>

text \<open>
  What the loop prints is a list of events, and what the user types is the list
  of the queries, after which \<open>input\<close> raises \<open>EOFError\<close> and the loop breaks.  A
  subscript on a list raises \<open>IndexError\<close> out of range (the indices here are never
  negative).  The handler catches \<open>KeyboardInterrupt\<close> and \<open>EOFError\<close> only, so any
  other exception leaves \<open>query_loop\<close>.
\<close>

datatype event =
  Print_welcome | Print_blank | Prompt | Print_results
  | Print_score nat real | Print_document str | Print_so_long

definition list_get :: "'a list \<Rightarrow> nat \<Rightarrow> error + 'a" where
  "list_get xs i = (if i < length xs then Inr (xs ! i) else Inl IndexError)"

text \<open>The loop \<open>for i in range(5)\<close> of lines 146-148.\<close>

fun display_results ::
  "state \<Rightarrow> (real \<times> nat) list \<Rightarrow> nat list \<Rightarrow> event list \<Rightarrow> (error + unit) \<times> event list" where
  "display_results s sim_scores [] out = (Inr (), out)"
| "display_results s sim_scores (i # rest) out =
     (case list_get sim_scores i of Inl e \<Rightarrow> (Inl e, out) | Inr r1 \<Rightarrow>
      let out1 = out @ [Print_score i (fst r1)] in
      case list_get sim_scores i of Inl e \<Rightarrow> (Inl e, out1) | Inr r2 \<Rightarrow>
      case list_get (documents (engine s)) (snd r2) of Inl e \<Rightarrow> (Inl e, out1) | Inr doc \<Rightarrow>
      display_results s sim_scores rest (out1 @ [Print_document (Document_str (store s ! doc))]))"

fun query_loop_body ::
  "state \<Rightarrow> str list \<Rightarrow> event list \<Rightarrow> (error + unit) \<times> event list \<times> state" where
  "query_loop_body s [] out = (Inr (), out @ [Print_blank, Prompt], s)"
| "query_loop_body s (query # queries) out =
     (let out1 = out @ [Print_blank, Prompt] in
      case get_results s query of
        (Inl e, s1) \<Rightarrow> (Inl e, out1, s1)
      | (Inr sim_scores, s1) \<Rightarrow>
          (case display_results s1 sim_scores [0, 1, 2, 3, 4] (out1 @ [Print_results]) of
             (Inl e, out2) \<Rightarrow> (Inl e, out2, s1)
           | (Inr _, out2) \<Rightarrow> query_loop_body s1 queries out2))"

definition query_loop :: "state \<Rightarrow> str list \<Rightarrow> (error + unit) \<times> event list \<times> state" where
  "query_loop s queries =
     (case query_loop_body s queries [Print_welcome] of
        (Inl e, out, s') \<Rightarrow> (Inl e, out, s')
      | (Inr _, out, s') \<Rightarrow> (Inr (), out @ [Print_so_long], s'))"

section \<open>Building the index (the script of lines 204-222)\<close>

definition index_corpus :: "str list \<Rightarrow> (error + unit) \<times> state" where
  "index_corpus files = create_term_vectors (create_df_table (read_files TFIDF_Engine_init files))"

section \<open>Notions of the specification\<close>

text \<open>
  The definitions of this section are not translations of code: they state, in the
  specification's words, what the properties below are about.
\<close>

subsection \<open>Vectors\<close>

text \<open>
  The dot product of two vectors of equal length and the Euclidean magnitude of a
  vector, as sums over the positions.
\<close>

definition dot :: "real list \<Rightarrow> real list \<Rightarrow> real" where
  "dot u v = (\<Sum>i<length u. u ! i * v ! i)"

definition magnitude :: "real list \<Rightarrow> real" where
  "magnitude v = sqrt (\<Sum>i<length v. (v ! i)\<^sup>2)"

text \<open>
  The cosine similarity of the specification: the dot product divided by the product of
  the magnitudes, and \<open>0\<close> when a magnitude is zero.
\<close>

definition cosine_similarity :: "real list \<Rightarrow> real list \<Rightarrow> real" where
  "cosine_similarity u v =
     (if magnitude u = 0 \<or> magnitude v = 0 then 0 else dot u v / (magnitude u * magnitude v))"

subsection \<open>A tokenized corpus and its index\<close>

text \<open>
  A term-count dictionary as \<open>tokenize\<close> returns it has only positive counts.  A corpus is
  tokenized, ready for \<open>create_df_table\<close>, when the table is still empty, \<open>N\<close> is the
  number of documents (line 83), and every document of the list is an object of the
  store whose \<open>terms\<close> is a dictionary (each key once) with positive counts: the state
  that \<open>read_files\<close> leaves behind on a new engine.
\<close>

definition positive_counts :: "int dict \<Rightarrow> bool" where
  "positive_counts d = list_all (\<lambda>(w, c). 1 \<le> c) d"

definition tokenized_corpus :: "state \<Rightarrow> bool" where
  "tokenized_corpus s =
     (df_table (engine s) = [] \<and> N (engine s) = int (length (documents (engine s)))
      \<and> list_all (\<lambda>r. r < length (store s) \<and> distinct (map fst (terms (store s ! r)))
                       \<and> positive_counts (terms (store s ! r)))
           (documents (engine s)))"

text \<open>The document \<open>read_files\<close> stores for the text \<open>t\<close>.\<close>

definition loaded :: "str \<Rightarrow> Document" where
  "loaded t = \<lparr>doc_text = t, terms = tokenize t, term_vector = []\<rparr>"

text \<open>
  The document frequency of a word: the number of documents of the list that contain it
  at least once (presence, not occurrences).
\<close>

definition doc_freq :: "Document list \<Rightarrow> ref list \<Rightarrow> str \<Rightarrow> nat" where
  "doc_freq st docs w = length (filter (\<lambda>doc. w \<in> fst ` set (terms (st ! doc))) docs)"

text \<open>The value of a table at a word, \<open>0\<close> for a word that is not a key.\<close>

definition df_value :: "int dict \<Rightarrow> str \<Rightarrow> int" where
  "df_value df w = (case map_of df w of Some n \<Rightarrow> n | None \<Rightarrow> 0)"

text \<open>
  The index is well formed when every vocabulary word is a key of the table, with a
  document frequency between \<open>1\<close> and \<open>N\<close>.
\<close>

definition wf_index :: "TFIDF_Engine \<Rightarrow> bool" where
  "wf_index e =
     list_all (\<lambda>w. case map_of (df_table e) w of None \<Rightarrow> False | Some k \<Rightarrow> 1 \<le> k \<and> k \<le> N e)
       (term_vector_words e)"

text \<open>
  The TF-IDF weight of the specification: \<open>tf = 1 + ln c\<close> and
  \<open>idf = ln (N / df_table[w])\<close> for a word \<open>w\<close> that the document contains \<open>c\<close> times,
  and \<open>0\<close> for a word that it does not contain.
\<close>

definition spec_weight :: "TFIDF_Engine \<Rightarrow> int dict \<Rightarrow> str \<Rightarrow> real" where
  "spec_weight e d_terms w =
     (case map_of d_terms w of
        None \<Rightarrow> 0
      | Some c \<Rightarrow>
          (case map_of (df_table e) w of
             None \<Rightarrow> 0
           | Some k \<Rightarrow> (1 + ln (real_of_int c)) * ln (real_of_int (N e) / real_of_int k)))"

text \<open>A document with the vector of its weights, one per vocabulary word, in order.\<close>

definition weighted :: "TFIDF_Engine \<Rightarrow> Document \<Rightarrow> Document" where
  "weighted e d = d\<lparr>term_vector := map (spec_weight e (terms d)) (term_vector_words e)\<rparr>"

subsection \<open>A query\<close>

text \<open>
  The state in which \<open>get_results\<close> has allocated the document of the query and set
  its text and terms, the state in which it has also set its vector, the similarity that
  \<open>calculate_cosine_sim\<close> returns, and the list of the scores before it is sorted.
\<close>

definition query_state :: "state \<Rightarrow> str \<Rightarrow> state" where
  "query_state s query =
     s\<lparr>store := store s @ [\<lparr>doc_text = query, terms = tokenize query, term_vector = []\<rparr>]\<rparr>"

definition answered :: "state \<Rightarrow> str \<Rightarrow> state" where
  "answered s query = update_doc (query_state s query) (length (store s)) (weighted (engine s))"

definition sim_of :: "state \<Rightarrow> ref \<Rightarrow> ref \<Rightarrow> real" where
  "sim_of s d1 d2 = (case calculate_cosine_sim s d1 d2 of Inr x \<Rightarrow> x | Inl e \<Rightarrow> 0)"

definition scores :: "state \<Rightarrow> str \<Rightarrow> (real \<times> nat) list" where
  "scores s query =
     map (\<lambda>(idx, doc). (sim_of (answered s query) (length (store s)) doc, idx))
       (enumerate 0 (documents (engine s)))"

text \<open>
  The vector of a query in the specification's words: the weights of the words of the
  query, one per vocabulary word, against the table and the \<open>N\<close> of the corpus.
\<close>

definition query_vector :: "TFIDF_Engine \<Rightarrow> str \<Rightarrow> real list" where
  "query_vector e query = map (spec_weight e (tokenize query)) (term_vector_words e)"

subsection \<open>What the query loop displays\<close>

text \<open>
  The list that \<open>get_results\<close> returns for a query (empty if it raises); the two lines
  that the loop prints for position \<open>i\<close> of a ranked list, the score and the first 500
  characters of the document at that position; and the output for one query on a corpus
  of at least five documents: the blank line, the prompt, the heading and the lines of
  the first five positions.
\<close>

definition ranking :: "state \<Rightarrow> str \<Rightarrow> (real \<times> nat) list" where
  "ranking s query = (case fst (get_results s query) of Inr rs \<Rightarrow> rs | Inl e \<Rightarrow> [])"

definition result_lines :: "state \<Rightarrow> (real \<times> nat) list \<Rightarrow> nat \<Rightarrow> event list" where
  "result_lines s rs i =
     [Print_score i (fst (rs ! i)),
      Print_document (take 500 (doc_text (store s ! (documents (engine s) ! snd (rs ! i)))))]"

definition top_five :: "state \<Rightarrow> str \<Rightarrow> event list" where
  "top_five s query =
     [Print_blank, Prompt, Print_results]
       @ concat (map (result_lines s (ranking s query)) [0, 1, 2, 3, 4])"

subsection \<open>Concrete inputs\<close>

text \<open>
  Two files with the texts \<open>"a b"\<close> and \<open>"a"\<close>; the same two files in the other
  order; five files with one letter each; and a store of three documents with the
  vectors \<open>[3, 4]\<close>, \<open>[0, 0]\<close> and \<open>[4, 3]\<close>.
\<close>

definition example_files :: "str list" where
  "example_files = [[97, 32, 98], [97]]"

definition swapped_files :: "str list" where
  "swapped_files = [[97], [97, 32, 98]]"

definition five_files :: "str list" where
  "five_files = [[97], [98], [99], [100], [101]]"

definition example_vectors :: state where
  "example_vectors =
     \<lparr>store = [\<lparr>doc_text = [], terms = [], term_vector = [3, 4]\<rparr>,
               \<lparr>doc_text = [], terms = [], term_vector = [0, 0]\<rparr>,
               \<lparr>doc_text = [], terms = [], term_vector = [4, 3]\<rparr>],
      engine = engine TFIDF_Engine_init\<rparr>"

section \<open>Properties of the tokenizer\<close>

lemma run_char_iff: "run_char c = (re_match_alnum c \<or> c = 39 \<or> c = 95 \<or> c = 45)"
  by (auto simp: run_char_def re_match_alnum_def)

lemma tokenize_scan_reference:
  "(let (tokens', token') = tokenize_scan tokens token text
    in (if token' \<noteq> [] then tokens' @ [lower token'] else tokens'))
   = tokens @ reference_scan token text"
proof (induction "text" arbitrary: tokens token)
  case Nil
  show ?case by (simp add: flush_run_def)
next
  case (Cons c rest)
  show ?case
  proof (cases "run_char c")
    case True
    then show ?thesis
      using Cons.IH [of tokens "token @ [c]"] by (simp add: run_char_iff)
  next
    case False
    then have nr: "\<not> (re_match_alnum c \<or> c = 39 \<or> c = 95 \<or> c = 45)"
      by (simp add: run_char_iff)
    show ?thesis
      using False nr
        Cons.IH [of "(if strip1 c \<noteq> []
                      then (if token \<noteq> [] then tokens @ [lower token] else tokens) @ [strip1 c]
                      else (if token \<noteq> [] then tokens @ [lower token] else tokens))"
                    "[]"]
      by (simp add: Let_def flush_run_def strip1_def)
  qed
qed

lemma dict_count_keys:
  "map fst (dict_count d t) = (if t \<in> set (map fst d) then map fst d else map fst d @ [t])"
proof -
  have "(map_of d t = None) = (t \<notin> fst ` set d)"
    by (simp add: map_of_eq_None_iff)
  then show ?thesis
    by (auto simp: dict_count_def AList.update_keys split: option.splits)
qed

lemma dict_count_distinct: "distinct (map fst d) \<Longrightarrow> distinct (map fst (dict_count d t))"
  by (simp add: dict_count_keys)

lemma dict_count_lookup:
  "map_of (dict_count d t) k =
     (if k = t then Some (case map_of d t of Some n \<Rightarrow> n + 1 | None \<Rightarrow> 1) else map_of d k)"
  by (simp add: dict_count_def AList.update_conv' split: option.splits)

lemma count_tokens_distinct:
  "distinct (map fst d) \<Longrightarrow> distinct (map fst (count_tokens d ts))"
  by (induction ts arbitrary: d) (simp_all add: dict_count_distinct)

lemma dict_count_key_set: "fst ` set (dict_count d t) = insert t (fst ` set d)"
proof -
  have "set (map fst (dict_count d t)) = insert t (set (map fst d))"
    unfolding dict_count_keys by auto
  then show ?thesis by simp
qed

lemma count_tokens_keys: "fst ` set (count_tokens d ts) = fst ` set d \<union> set ts"
  by (induction ts arbitrary: d) (simp_all add: dict_count_key_set)

lemma count_tokens_lookup:
  "map_of (count_tokens d ts) k =
     (if k \<in> set ts
      then Some ((case map_of d k of Some n \<Rightarrow> n | None \<Rightarrow> 0) + int (count_list ts k))
      else map_of d k)"
proof (induction ts arbitrary: d)
  case Nil
  show ?case by simp
next
  case (Cons t ts)
  show ?case
    by (simp add: Cons.IH dict_count_lookup split: option.splits)
qed

lemma tokenize_reference: "tokenize text = count_tokens [] (reference_scan [] text)"
proof -
  obtain tokens token where sc: "tokenize_scan [] [] text = (tokens, token)"
    by (cases "tokenize_scan [] [] text") blast
  have e: "(if token \<noteq> [] then tokens @ [lower token] else tokens) = reference_scan [] text"
    using tokenize_scan_reference [of "[]" "[]" "text"] by (simp add: sc)
  show ?thesis
    by (simp only: tokenize_def sc Let_def prod.case e)
qed

lemma tokenize_distinct: "distinct (map fst (tokenize text))"
  by (simp add: tokenize_reference count_tokens_distinct)

lemma count_list_positive: "t \<in> set ts \<Longrightarrow> 1 \<le> count_list ts t"
  using count_list_0_iff [of ts t] by (cases "count_list ts t") simp_all

lemma tokenize_positive: "map_of (tokenize text) t = Some n \<Longrightarrow> 1 \<le> n"
  using count_list_positive [of t "reference_scan [] text"]
  by (auto simp: tokenize_reference count_tokens_lookup split: if_splits)

text \<open>
  C2.  For every input string, \<open>tokenize\<close> returns the token-to-count mapping of the
  reference scan of the specification (as a dictionary: the same keys, each once, with
  the same counts).  In particular the empty string gives the empty dictionary, and
  \<open>"a, b"\<close> (code points 97, 44, 32, 98) gives \<open>{"a": 1, ",": 1, "b": 1}\<close>.
\<close>

theorem tokenize_refines_reference_scan:
  "map_of (tokenize text) = reference_counts text
   \<and> distinct (map fst (tokenize text))
   \<and> tokenize [] = []
   \<and> tokenize [97, 44, 32, 98] = [([97], 1), ([44], 1), ([98], 1)]"
proof -
  have "map_of (tokenize text) t = reference_counts text t" for t
    by (simp add: tokenize_reference count_tokens_lookup reference_counts_def)
  then have "map_of (tokenize text) = reference_counts text"
    by (rule ext)
  moreover have "tokenize [] = []"
    by (simp add: tokenize_def)
  moreover have "tokenize [97, 44, 32, 98] = [([97], 1), ([44], 1), ([98], 1)]"
    by (simp add: tokenize_def re_match_alnum_def strip1_def py_isspace_def lower_def
        dict_count_def)
  ultimately show ?thesis
    by (simp add: tokenize_distinct)
qed

section \<open>Properties of the cosine similarity\<close>

lemma sum_list_squares:
  "sum_list (map (\<lambda>a. a * a) (v :: real list)) = (\<Sum>i<length v. (v ! i)\<^sup>2)"
  by (simp add: sum_list_sum_nth atLeast0LessThan flip: power2_eq_square)

lemma sum_list_products:
  "length u = length v \<Longrightarrow> sum_list (map (\<lambda>(a, b). a * b) (zip u v)) = (\<Sum>i<length u. u ! i * (v ! i :: real))"
  by (simp add: sum_list_sum_nth atLeast0LessThan)

lemma squares_nonneg: "0 \<le> (\<Sum>i<length v. ((v ! i)::real)\<^sup>2)"
  by (simp add: sum_nonneg)

lemma math_sqrt_squares: "math_sqrt (sum_list (map (\<lambda>a. a * a) v)) = Inr (magnitude v)"
  using squares_nonneg [of v] by (simp add: math_sqrt_def sum_list_squares magnitude_def)

lemma cos_general:
  "length (term_vector (store s ! d1)) = length (term_vector (store s ! d2)) \<Longrightarrow>
   calculate_cosine_sim s d1 d2 =
     Inr (if magnitude (term_vector (store s ! d1)) = 0 \<or> magnitude (term_vector (store s ! d2)) = 0
          then 0
          else dot (term_vector (store s ! d1)) (term_vector (store s ! d2))
               / (magnitude (term_vector (store s ! d1)) * magnitude (term_vector (store s ! d2))))"
  by (simp add: calculate_cosine_sim_def Let_def math_sqrt_squares sum_list_products py_div_def dot_def)

lemma magnitude_zero: "(magnitude v = 0) = (\<forall>x\<in>set v. x = 0)"
proof -
  have "(magnitude v = 0) = ((\<Sum>i<length v. (v ! i)\<^sup>2) = 0)"
    by (simp add: magnitude_def)
  also have "\<dots> = (\<forall>i<length v. v ! i = 0)"
    by (subst sum_nonneg_eq_0_iff) auto
  also have "\<dots> = (\<forall>x\<in>set v. x = 0)"
    by (metis in_set_conv_nth)
  finally show ?thesis .
qed

lemma cos_total: "\<exists>x. calculate_cosine_sim s d1 d2 = Inr x"
  by (simp add: calculate_cosine_sim_def Let_def math_sqrt_squares py_div_def)

section \<open>Properties of loading and of the document-frequency table\<close>

lemma read_files_loop_store:
  "store (read_files_loop s ts) = store s @ map loaded ts"
  by (induction ts arbitrary: s)
     (simp_all add: new_Document_def update_doc_def Let_def Document_init_def loaded_def)

lemma read_files_loop_engine:
  "engine (read_files_loop s ts) =
     (engine s)\<lparr>documents := documents (engine s) @ [length (store s)..<length (store s) + length ts]\<rparr>"
proof (induction ts arbitrary: s)
  case Nil
  show ?case by simp
next
  case (Cons t ts)
  show ?case
    by (simp add: Cons.IH new_Document_def update_doc_def Let_def upt_conv_Cons del: upt_Suc)
qed

lemma positive_counts_tokenize: "positive_counts (tokenize t)"
proof -
  have "1 \<le> c" if "(w, c) \<in> set (tokenize t)" for w c
    using that tokenize_distinct [of t] tokenize_positive [of t w c] by simp
  then show ?thesis
    by (auto simp: positive_counts_def list_all_iff)
qed

lemma read_files_tokenized: "tokenized_corpus (read_files TFIDF_Engine_init ts)"
  by (auto simp: tokenized_corpus_def read_files_def Let_def read_files_loop_store
      read_files_loop_engine TFIDF_Engine_init_def list_all_iff loaded_def
      tokenize_distinct positive_counts_tokenize)

lemma create_df_table_terms_eq: "create_df_table_terms df ws = count_tokens df ws"
  by (induction ws arbitrary: df) simp_all

lemma count_list_distinct: "distinct ws \<Longrightarrow> w \<in> set ws \<Longrightarrow> count_list ws w = 1"
  by (induction ws) (auto simp: count_list_0_iff)

lemma create_df_table_terms_lookup:
  "distinct ws \<Longrightarrow>
   map_of (create_df_table_terms df ws) w =
     (if w \<in> set ws then Some (df_value df w + 1) else map_of df w)"
  by (simp add: create_df_table_terms_eq count_tokens_lookup count_list_distinct df_value_def)

lemma create_df_table_docs_lookup:
  "list_all (\<lambda>r. distinct (map fst (terms (st ! r)))) docs \<Longrightarrow>
   map_of (create_df_table_docs st df docs) w =
     (if doc_freq st docs w = 0 then map_of df w
      else Some (df_value df w + int (doc_freq st docs w)))"
proof (induction docs arbitrary: df)
  case Nil
  show ?case by (simp add: doc_freq_def)
next
  case (Cons doc docs)
  then have d: "distinct (map fst (terms (st ! doc)))"
    and rest: "list_all (\<lambda>r. distinct (map fst (terms (st ! r)))) docs"
    by simp_all
  show ?case
    using Cons.IH [OF rest, of "create_df_table_terms df (map fst (terms (st ! doc)))"]
      create_df_table_terms_lookup [OF d, of df w]
    by (auto simp: doc_freq_def df_value_def)
qed

lemma create_df_table_docs_distinct:
  "distinct (map fst df) \<Longrightarrow> distinct (map fst (create_df_table_docs st df docs))"
  by (induction docs arbitrary: df) (simp_all add: create_df_table_terms_eq count_tokens_distinct)

lemma create_df_table_docs_keys:
  "fst ` set (create_df_table_docs st df docs) =
     fst ` set df \<union> (\<Union>doc\<in>set docs. fst ` set (terms (st ! doc)))"
  by (induction docs arbitrary: df) (auto simp: create_df_table_terms_eq count_tokens_keys)

lemma doc_freq_le: "doc_freq st docs w \<le> length docs"
  by (simp add: doc_freq_def)

lemma doc_freq_pos: "(0 < doc_freq st docs w) = (\<exists>doc\<in>set docs. w \<in> fst ` set (terms (st ! doc)))"
  by (auto simp: doc_freq_def filter_empty_conv length_greater_0_conv simp del: length_0_conv)

section \<open>Properties of the term vectors\<close>

lemma create_df_table_store: "store (create_df_table s) = store s"
  by (simp add: create_df_table_def Let_def)

lemma create_df_table_engine:
  "engine (create_df_table s) =
     (engine s)\<lparr>df_table := create_df_table_docs (store s) (df_table (engine s)) (documents (engine s)),
                term_vector_words :=
                  map fst (create_df_table_docs (store s) (df_table (engine s)) (documents (engine s)))\<rparr>"
  by (simp add: create_df_table_def Let_def)

lemma tokenized_distinct:
  "tokenized_corpus s \<Longrightarrow>
   list_all (\<lambda>r. distinct (map fst (terms (store s ! r)))) (documents (engine s))"
  by (simp add: tokenized_corpus_def list_all_iff)

lemma create_df_table_df:
  assumes "tokenized_corpus s"
    and "w \<in> set (term_vector_words (engine (create_df_table s)))"
  shows "map_of (df_table (engine (create_df_table s))) w
           = Some (int (doc_freq (store s) (documents (engine s)) w))"
    and "1 \<le> doc_freq (store s) (documents (engine s)) w"
    and "int (doc_freq (store s) (documents (engine s)) w) \<le> N (engine (create_df_table s))"
proof -
  have empty: "df_table (engine s) = []" and n: "N (engine s) = int (length (documents (engine s)))"
    using assms(1) by (simp_all add: tokenized_corpus_def)
  have "w \<in> fst ` set (create_df_table_docs (store s) [] (documents (engine s)))"
    using assms(2) by (simp add: create_df_table_engine empty)
  then have "\<exists>doc\<in>set (documents (engine s)). w \<in> fst ` set (terms (store s ! doc))"
    by (simp add: create_df_table_docs_keys)
  then have pos: "0 < doc_freq (store s) (documents (engine s)) w"
    by (simp add: doc_freq_pos)
  then show "1 \<le> doc_freq (store s) (documents (engine s)) w"
    by simp
  show "map_of (df_table (engine (create_df_table s))) w
           = Some (int (doc_freq (store s) (documents (engine s)) w))"
    using pos create_df_table_docs_lookup [OF tokenized_distinct [OF assms(1)], of "[]" w]
    by (simp add: create_df_table_engine empty df_value_def)
  show "int (doc_freq (store s) (documents (engine s)) w) \<le> N (engine (create_df_table s))"
    using doc_freq_le [of "store s" "documents (engine s)" w]
    by (simp add: create_df_table_engine n)
qed

lemma create_df_table_vocabulary:
  "term_vector_words (engine (create_df_table s)) = map fst (df_table (engine (create_df_table s)))"
  by (simp add: create_df_table_engine)

lemma create_df_table_vocabulary_distinct:
  "tokenized_corpus s \<Longrightarrow> distinct (term_vector_words (engine (create_df_table s)))"
  using create_df_table_docs_distinct [of "[]" "store s" "documents (engine s)"]
  by (simp add: create_df_table_engine tokenized_corpus_def)

lemma create_df_table_wf:
  assumes "tokenized_corpus s"
  shows "wf_index (engine (create_df_table s))"
proof -
  have "case map_of (df_table (engine (create_df_table s))) w of
          None \<Rightarrow> False | Some k \<Rightarrow> 1 \<le> k \<and> k \<le> N (engine (create_df_table s))"
    if "w \<in> set (term_vector_words (engine (create_df_table s)))" for w
    using create_df_table_df [OF assms that] by simp
  then show ?thesis
    by (simp add: wf_index_def list_all_iff)
qed

lemma term_weight_ok:
  assumes "map_of (df_table e) w = Some k" and "1 \<le> k" and "k \<le> N e"
    and "positive_counts ts"
  shows "term_weight e ts w = Inr (spec_weight e ts w)"
proof (cases "map_of ts w")
  case None
  then have "w \<notin> fst ` set ts"
    by (simp add: map_of_eq_None_iff)
  then show ?thesis
    using None by (simp add: term_weight_def spec_weight_def)
next
  case (Some c)
  then have mem: "(w, c) \<in> set ts"
    by (rule map_of_SomeD)
  then have c: "1 \<le> c"
    using assms(4) by (auto simp: positive_counts_def list_all_iff)
  have w: "w \<in> fst ` set ts"
    using mem by force
  have q: "0 < real_of_int (N e) / real_of_int k"
    using assms(2,3) by simp
  show ?thesis
    using Some c w q assms(1,2)
    by (simp add: term_weight_def spec_weight_def dict_get_def math_log_def py_truediv_def
        Let_def not_le)
qed

lemma wf_index_word:
  "wf_index e \<Longrightarrow> w \<in> set (term_vector_words e) \<Longrightarrow>
   \<exists>k. map_of (df_table e) w = Some k \<and> 1 \<le> k \<and> k \<le> N e"
  by (auto simp: wf_index_def list_all_iff split: option.splits)

lemma update_doc_engine [simp]: "engine (update_doc s d f) = engine s"
  by (simp add: update_doc_def)

lemma update_doc_length [simp]: "length (store (update_doc s d f)) = length (store s)"
  by (simp add: update_doc_def)

lemma update_doc_nth:
  "store (update_doc s d f) ! a = (if a = d \<and> d < length (store s) then f (store s ! d) else store s ! a)"
  by (cases "d < length (store s)") (simp_all add: update_doc_def nth_list_update not_less list_update_beyond)

lemma update_doc_twice:
  "d < length (store s) \<Longrightarrow> update_doc (update_doc s d f) d g = update_doc s d (\<lambda>x. g (f x))"
  by (simp add: update_doc_def)

lemma create_term_vector_loop_ok:
  assumes "\<forall>w\<in>set ws. \<exists>k. map_of (df_table (engine s)) w = Some k \<and> 1 \<le> k \<and> k \<le> N (engine s)"
    and "positive_counts (terms (store s ! d))"
    and "d < length (store s)"
  shows "create_term_vector_loop s d ws =
           (Inr (), update_doc s d (\<lambda>doc. doc\<lparr>term_vector :=
              term_vector doc @ map (spec_weight (engine s) (terms (store s ! d))) ws\<rparr>))"
  using assms
proof (induction ws arbitrary: s)
  case Nil
  then show ?case
    by (simp add: update_doc_def)
next
  case (Cons w ws)
  let ?x = "spec_weight (engine s) (terms (store s ! d)) w"
  let ?s1 = "update_doc s d (\<lambda>doc. doc\<lparr>term_vector := term_vector doc @ [?x]\<rparr>)"
  obtain k where k: "map_of (df_table (engine s)) w = Some k" "1 \<le> k" "k \<le> N (engine s)"
    using Cons.prems(1) by auto
  have tw: "term_weight (engine s) (terms (store s ! d)) w = Inr ?x"
    using term_weight_ok [OF k Cons.prems(2)] .
  have t1: "terms (store ?s1 ! d) = terms (store s ! d)"
    using Cons.prems(3) by (simp add: update_doc_nth)
  have "create_term_vector_loop ?s1 d ws =
          (Inr (), update_doc ?s1 d (\<lambda>doc. doc\<lparr>term_vector :=
              term_vector doc @ map (spec_weight (engine ?s1) (terms (store ?s1 ! d))) ws\<rparr>))"
    using Cons.prems by (intro Cons.IH) (simp_all add: t1)
  then show ?case
    using Cons.prems(3) by (simp add: tw t1 update_doc_twice)
qed

lemma create_term_vector_ok:
  assumes "wf_index (engine s)" and "positive_counts (terms (store s ! d))"
    and "d < length (store s)"
  shows "create_term_vector s d =
           (Inr (), update_doc s d (\<lambda>doc. doc\<lparr>term_vector :=
              map (spec_weight (engine s) (terms (store s ! d))) (term_vector_words (engine s))\<rparr>))"
proof -
  let ?s0 = "update_doc s d (\<lambda>doc. doc\<lparr>term_vector := []\<rparr>)"
  have t0: "terms (store ?s0 ! d) = terms (store s ! d)"
    using assms(3) by (simp add: update_doc_nth)
  have "create_term_vector_loop ?s0 d (term_vector_words (engine s)) =
          (Inr (), update_doc ?s0 d (\<lambda>doc. doc\<lparr>term_vector :=
              term_vector doc @ map (spec_weight (engine ?s0) (terms (store ?s0 ! d)))
                (term_vector_words (engine s))\<rparr>))"
    using assms wf_index_word [OF assms(1)]
    by (intro create_term_vector_loop_ok) (simp_all add: t0)
  then show ?thesis
    using assms(3) by (simp add: create_term_vector_def t0 update_doc_twice)
qed

section \<open>All term vectors, the frame of a query, and sorting\<close>

lemma weighted_terms [simp]: "terms (weighted e d) = terms d"
  by (simp add: weighted_def)

lemma weighted_text [simp]: "doc_text (weighted e d) = doc_text d"
  by (simp add: weighted_def)

lemma weighted_idem [simp]: "weighted e (weighted e d) = weighted e d"
  by (simp add: weighted_def)

lemma weighted_vector:
  "term_vector (weighted e d) = map (spec_weight e (terms d)) (term_vector_words e)"
  by (simp add: weighted_def)

lemma create_term_vector_weighted:
  assumes "wf_index (engine s)" and "positive_counts (terms (store s ! d))"
    and "d < length (store s)"
  shows "create_term_vector s d = (Inr (), update_doc s d (weighted (engine s)))"
proof -
  have "update_doc s d (\<lambda>doc. doc\<lparr>term_vector :=
              map (spec_weight (engine s) (terms (store s ! d))) (term_vector_words (engine s))\<rparr>)
        = update_doc s d (weighted (engine s))"
    by (simp add: update_doc_def weighted_def)
  then show ?thesis
    using create_term_vector_ok [OF assms] by simp
qed

lemma create_term_vectors_loop_ok:
  assumes "wf_index (engine s)"
    and "\<forall>r\<in>set rs. r < length (store s) \<and> positive_counts (terms (store s ! r))"
  shows "\<exists>s'. create_term_vectors_loop s rs = (Inr (), s') \<and> engine s' = engine s
           \<and> length (store s') = length (store s)
           \<and> (\<forall>a<length (store s). store s' ! a =
                 (if a \<in> set rs then weighted (engine s) (store s ! a) else store s ! a))"
  using assms
proof (induction rs arbitrary: s)
  case Nil
  then show ?case by simp
next
  case (Cons r rs)
  let ?s1 = "update_doc s r (weighted (engine s))"
  have r: "r < length (store s)" "positive_counts (terms (store s ! r))"
    using Cons.prems(2) by simp_all
  have step: "create_term_vector s r = (Inr (), ?s1)"
    using create_term_vector_weighted [OF Cons.prems(1) r(2) r(1)] .
  have wf1: "wf_index (engine ?s1)"
    using Cons.prems(1) by simp
  have rest: "\<forall>a\<in>set rs. a < length (store ?s1) \<and> positive_counts (terms (store ?s1 ! a))"
    using Cons.prems(2) by (simp add: update_doc_nth)
  obtain s' where s': "create_term_vectors_loop ?s1 rs = (Inr (), s')"
      "engine s' = engine ?s1" "length (store s') = length (store ?s1)"
      "\<forall>a<length (store ?s1). store s' ! a =
          (if a \<in> set rs then weighted (engine ?s1) (store ?s1 ! a) else store ?s1 ! a)"
    using Cons.IH [OF wf1 rest] by blast
  have "\<forall>a<length (store s). store s' ! a =
          (if a \<in> set (r # rs) then weighted (engine s) (store s ! a) else store s ! a)"
    using s'(4) by (simp add: update_doc_nth)
  then show ?case
    using s'(1,2,3) by (simp add: step)
qed

lemma create_term_vector_loop_frame:
  "create_term_vector_loop s d ws = (r, s') \<Longrightarrow>
   engine s' = engine s \<and> length (store s') = length (store s)
   \<and> (\<forall>a. a \<noteq> d \<longrightarrow> store s' ! a = store s ! a)"
proof (induction ws arbitrary: s)
  case Nil
  then show ?case by simp
next
  case (Cons w ws)
  show ?case
  proof (cases "term_weight (engine s) (terms (store s ! d)) w")
    case (Inl e)
    then show ?thesis using Cons.prems by simp
  next
    case (Inr x)
    then have "create_term_vector_loop
        (update_doc s d (\<lambda>doc. doc\<lparr>term_vector := term_vector doc @ [x]\<rparr>)) d ws = (r, s')"
      using Cons.prems by simp
    from Cons.IH [OF this] show ?thesis
      by (simp add: update_doc_nth)
  qed
qed

lemma create_term_vector_frame:
  "create_term_vector s d = (r, s') \<Longrightarrow>
   engine s' = engine s \<and> length (store s') = length (store s)
   \<and> (\<forall>a. a \<noteq> d \<longrightarrow> store s' ! a = store s ! a)"
  unfolding create_term_vector_def
  by (drule create_term_vector_loop_frame) (simp add: update_doc_nth)

lemma get_results_unfold:
  "get_results s query =
     (case create_term_vector (query_state s query) (length (store s)) of
        (Inl e, s4) \<Rightarrow> (Inl e, s4)
      | (Inr _, s4) \<Rightarrow>
          (case get_results_loop s4 (length (store s)) (enumerate 0 (documents (engine s4))) [] of
             Inl e \<Rightarrow> (Inl e, s4)
           | Inr results \<Rightarrow> (Inr (sort_reverse fst results), s4)))"
  by (simp add: get_results_def new_Document_def update_doc_def Document_init_def query_state_def)

lemma get_results_frame:
  "get_results s query = (r, s') \<Longrightarrow>
   engine s' = engine s \<and> length (store s') = Suc (length (store s))
   \<and> (\<forall>a<length (store s). store s' ! a = store s ! a)"
proof -
  assume g: "get_results s query = (r, s')"
  obtain r4 s4 where c: "create_term_vector (query_state s query) (length (store s)) = (r4, s4)"
    by (cases "create_term_vector (query_state s query) (length (store s))") blast
  have s4: "s' = s4"
    using g by (auto simp: get_results_unfold c split: sum.splits)
  have "engine s4 = engine s \<and> length (store s4) = Suc (length (store s))
        \<and> (\<forall>a<length (store s). store s4 ! a = store s ! a)"
    using create_term_vector_frame [OF c] by (simp add: query_state_def nth_append)
  then show ?thesis
    by (simp add: s4)
qed

lemma calculate_cosine_sim_of: "calculate_cosine_sim s d1 d2 = Inr (sim_of s d1 d2)"
  using cos_total [of s d1 d2] by (auto simp: sim_of_def)

lemma get_results_loop_ok:
  "get_results_loop s q ps acc = Inr (acc @ map (\<lambda>(idx, doc). (sim_of s q doc, idx)) ps)"
  by (induction ps arbitrary: acc) (auto simp: calculate_cosine_sim_of)

lemma mset_sort_reverse: "mset (sort_reverse k xs) = mset xs"
  by (simp add: sort_reverse_def)

lemma length_sort_reverse: "length (sort_reverse k xs) = length xs"
  by (simp add: sort_reverse_def)

lemma sorted_sort_reverse: "sorted_wrt (\<lambda>a b. k b \<le> k a) (sort_reverse k xs)"
proof -
  have "sorted (map k (sort_key k (rev xs)))"
    by (rule sorted_sort_key)
  then have "sorted_wrt (\<lambda>a b. k a \<le> k b) (sort_key k (rev xs))"
    by (simp add: sorted_map)
  then show ?thesis
    by (simp add: sort_reverse_def sorted_wrt_rev)
qed

lemma sort_reverse_stable:
  "filter (\<lambda>y. k y = c) (sort_reverse k xs) = filter (\<lambda>y. k y = c) xs"
  by (simp add: sort_reverse_def sort_key_stable flip: rev_filter)

section \<open>Properties of the ranking and of the query loop\<close>

lemma query_state_simps [simp]:
  "engine (query_state s query) = engine s"
  "length (store (query_state s query)) = Suc (length (store s))"
  "terms (store (query_state s query) ! length (store s)) = tokenize query"
  by (simp_all add: query_state_def)

lemma get_results_ok:
  assumes "wf_index (engine s)"
  shows "get_results s query = (Inr (sort_reverse fst (scores s query)), answered s query)"
proof -
  have "create_term_vector (query_state s query) (length (store s))
          = (Inr (), answered s query)"
    unfolding answered_def
    using create_term_vector_weighted [of "query_state s query" "length (store s)"] assms
    by (simp add: positive_counts_tokenize)
  then show ?thesis
    by (simp add: get_results_unfold get_results_loop_ok scores_def answered_def)
qed

lemma map_snd_scores: "map snd (scores s query) = [0..<length (documents (engine s))]"
proof -
  have e: "snd \<circ> (\<lambda>(idx, doc). (sim_of (answered s query) (length (store s)) doc, idx)) = fst"
    by (auto simp: fun_eq_iff)
  have "map snd (scores s query) = map fst (enumerate 0 (documents (engine s)))"
    unfolding scores_def map_map e ..
  then show ?thesis
    by simp
qed

lemma length_scores: "length (scores s query) = length (documents (engine s))"
  by (simp add: scores_def)

lemma scores_index_sorted: "sorted_wrt (\<lambda>a b. snd a < snd b) (scores s query)"
proof -
  have "sorted_wrt (<) (map snd (scores s query))"
    by (simp add: map_snd_scores)
  then show ?thesis
    by (simp add: sorted_wrt_map)
qed

lemma sorted_wrt_filter_nth:
  "sorted_wrt P (filter Q xs) \<Longrightarrow> i < j \<Longrightarrow> j < length xs \<Longrightarrow> Q (xs ! i) \<Longrightarrow> Q (xs ! j)
   \<Longrightarrow> P (xs ! i) (xs ! j)"
proof (induction xs arbitrary: i j)
  case Nil
  then show ?case by simp
next
  case (Cons x xs)
  show ?case
  proof (cases i)
    case 0
    then obtain j' where j: "j = Suc j'" using Cons.prems(2) by (cases j) simp_all
    then have "xs ! j' \<in> set (filter Q xs)"
      using Cons.prems(3,5) by simp
    then show ?thesis
      using Cons.prems(1,4) 0 j by simp
  next
    case (Suc i')
    then obtain j' where j: "j = Suc j'" using Cons.prems(2) by (cases j) simp_all
    have "sorted_wrt P (filter Q xs)"
      using Cons.prems(1) by (cases "Q x") simp_all
    then show ?thesis
      using Cons.IH [of i' j'] Cons.prems Suc j by simp
  qed
qed

lemma sort_reverse_ties:
  assumes "sorted_wrt (\<lambda>a b. snd a < snd b) xs"
  shows "sorted_wrt (\<lambda>a b. fst b < fst a \<or> (fst a = fst b \<and> snd a < (snd b :: nat)))
           (sort_reverse fst xs)"
proof -
  let ?rs = "sort_reverse fst xs"
  have desc: "sorted_wrt (\<lambda>a b. fst b \<le> fst a) ?rs"
    by (rule sorted_sort_reverse)
  have "fst (?rs ! j) < fst (?rs ! i) \<or> (fst (?rs ! i) = fst (?rs ! j) \<and> snd (?rs ! i) < snd (?rs ! j))"
    if "i < j" "j < length ?rs" for i j
  proof (cases "fst (?rs ! i) = fst (?rs ! j)")
    case True
    let ?c = "fst (?rs ! j)"
    have "sorted_wrt (\<lambda>a b. snd a < snd b) (filter (\<lambda>y. fst y = ?c) xs)"
      using assms by (rule sorted_wrt_filter)
    then have "sorted_wrt (\<lambda>a b. snd a < snd b) (filter (\<lambda>y. fst y = ?c) ?rs)"
      by (simp add: sort_reverse_stable)
    from sorted_wrt_filter_nth [OF this that] True show ?thesis
      by simp
  next
    case False
    have "fst (?rs ! j) \<le> fst (?rs ! i)"
      using desc that by (simp add: sorted_wrt_iff_nth_less)
    then show ?thesis using False by simp
  qed
  then show ?thesis
    by (simp add: sorted_wrt_iff_nth_less)
qed

lemma display_results_ok:
  "\<forall>i\<in>set is. i < length rs \<and> snd (rs ! i) < length (documents (engine s)) \<Longrightarrow>
   display_results s rs is out =
     (Inr (), out @ concat (map (\<lambda>i. [Print_score i (fst (rs ! i)),
        Print_document (Document_str (store s ! (documents (engine s) ! snd (rs ! i))))]) is))"
  by (induction "is" arbitrary: out) (simp_all add: list_get_def)

lemma display_results_short:
  "\<exists>i\<in>set is. \<not> i < length rs \<Longrightarrow>
   \<forall>i\<in>set is. i < length rs \<longrightarrow> snd (rs ! i) < length (documents (engine s)) \<Longrightarrow>
   fst (display_results s rs is out) = Inl IndexError"
proof (induction "is" arbitrary: out)
  case Nil
  then show ?case by simp
next
  case (Cons i "is")
  show ?case
  proof (cases "i < length rs")
    case False
    then show ?thesis by (simp add: list_get_def)
  next
    case True
    then have "\<exists>i\<in>set is. \<not> i < length rs"
      using Cons.prems(1) by auto
    then show ?thesis
      using True Cons.prems(2) Cons.IH by (simp add: list_get_def)
  qed
qed

lemma ranked_index_valid:
  assumes "i < length (scores s query)"
  shows "snd (sort_reverse fst (scores s query) ! i) < length (documents (engine s))"
proof -
  let ?rs = "sort_reverse fst (scores s query)"
  have "snd (?rs ! i) \<in> set (map snd ?rs)"
    using assms by (simp add: length_sort_reverse)
  also have "set (map snd ?rs) = set (map snd (scores s query))"
    using mset_sort_reverse [of fst "scores s query"] by (metis mset_map set_mset_mset)
  finally show ?thesis
    by (simp add: map_snd_scores)
qed

lemma answered_engine [simp]: "engine (answered s query) = engine s"
  by (simp add: answered_def)

lemma query_loop_body_ok:
  "wf_index (engine s) \<Longrightarrow> 5 \<le> length (documents (engine s)) \<Longrightarrow>
   fst (query_loop_body s queries out) = Inr ()"
proof (induction queries arbitrary: s out)
  case Nil
  then show ?case by simp
next
  case (Cons query queries)
  let ?rs = "sort_reverse fst (scores s query)"
  have len: "length ?rs = length (documents (engine s))"
    by (simp add: length_sort_reverse length_scores)
  have "\<forall>i\<in>set [0, 1, 2, 3, 4]. i < length ?rs
          \<and> snd (?rs ! i) < length (documents (engine (answered s query)))"
  proof (intro ballI conjI)
    fix i :: nat
    assume "i \<in> set [0, 1, 2, 3, 4]"
    then have i: "i < length (documents (engine s))"
      using Cons.prems(2) by auto
    then show "i < length ?rs"
      by (simp add: len)
    show "snd (?rs ! i) < length (documents (engine (answered s query)))"
      using ranked_index_valid [of i s query] i by (simp add: length_scores)
  qed
  from display_results_ok [OF this]
  show ?case
    using Cons.prems Cons.IH [of "answered s query"]
    by (simp add: get_results_ok del: display_results.simps)
qed

lemma query_loop_body_short:
  assumes "wf_index (engine s)" and "length (documents (engine s)) < 5"
  shows "fst (query_loop_body s (query # queries) out) = Inl IndexError"
proof -
  let ?rs = "sort_reverse fst (scores s query)"
  have len: "length ?rs = length (documents (engine s))"
    by (simp add: length_sort_reverse length_scores)
  have a: "\<exists>i\<in>set [0, 1, 2, 3, 4]. \<not> i < length ?rs"
    using assms(2) unfolding len by (simp; arith)
  have b: "\<forall>i\<in>set [0, 1, 2, 3, 4]. i < length ?rs
          \<longrightarrow> snd (?rs ! i) < length (documents (engine (answered s query)))"
  proof (intro ballI impI)
    fix i :: nat
    assume "i < length ?rs"
    then show "snd (?rs ! i) < length (documents (engine (answered s query)))"
      using ranked_index_valid [of i s query] by (simp add: len length_scores)
  qed
  obtain r out2 where d: "display_results (answered s query) ?rs [0, 1, 2, 3, 4]
          (out @ [Print_blank, Prompt, Print_results]) = (r, out2)"
    by (cases "display_results (answered s query) ?rs [0, 1, 2, 3, 4]
          (out @ [Print_blank, Prompt, Print_results])") blast
  have "fst (display_results (answered s query) ?rs [0, 1, 2, 3, 4]
          (out @ [Print_blank, Prompt, Print_results])) = Inl IndexError"
    by (rule display_results_short [OF a b])
  then have "r = Inl IndexError"
    unfolding d by simp
  then show ?thesis
    using assms(1) d
    by (simp add: get_results_ok del: display_results.simps)
qed

lemma fst_query_loop:
  "fst (query_loop s queries) = fst (query_loop_body s queries [Print_welcome])"
  by (simp add: query_loop_def split: prod.splits sum.splits)

section \<open>The ranking in the words of the specification\<close>

lemma answered_store:
  "store (answered s query) =
     store s @ [\<lparr>doc_text = query, terms = tokenize query,
                 term_vector = query_vector (engine s) query\<rparr>]"
  by (simp add: answered_def query_state_def update_doc_def weighted_def query_vector_def)

lemma answered_query_vector:
  "term_vector (store (answered s query) ! length (store s)) = query_vector (engine s) query"
  by (simp add: answered_store)

lemma answered_old: "a < length (store s) \<Longrightarrow> store (answered s query) ! a = store s ! a"
  by (simp add: answered_store nth_append)

lemma answered_length: "length (store (answered s query)) = Suc (length (store s))"
  by (simp add: answered_store)

lemma sim_of_cong:
  "term_vector (store s ! a) = term_vector (store t ! a') \<Longrightarrow>
   term_vector (store s ! b) = term_vector (store t ! b') \<Longrightarrow>
   sim_of s a b = sim_of t a' b'"
  by (simp add: sim_of_def calculate_cosine_sim_def)

lemma sim_of_cosine:
  "length (term_vector (store s ! a)) = length (term_vector (store s ! b)) \<Longrightarrow>
   sim_of s a b = cosine_similarity (term_vector (store s ! a)) (term_vector (store s ! b))"
  using cos_general [of s a b] by (simp add: sim_of_def cosine_similarity_def)

lemma length_query_vector: "length (query_vector e query) = length (term_vector_words e)"
  by (simp add: query_vector_def)

lemma in_enumerate: "(idx, doc) \<in> set (enumerate 0 docs) \<Longrightarrow> idx < length docs \<and> doc = docs ! idx"
  by (auto simp: in_set_enumerate_eq)

lemma in_enumerate_mem: "(idx, doc) \<in> set (enumerate 0 docs) \<Longrightarrow> doc \<in> set docs"
  using in_enumerate [of idx doc docs] by auto

lemma scores_spec:
  assumes "list_all (\<lambda>r. r < length (store s)
             \<and> length (term_vector (store s ! r)) = length (term_vector_words (engine s)))
           (documents (engine s))"
  shows "scores s query =
           map (\<lambda>(idx, doc). (cosine_similarity (query_vector (engine s) query)
                                 (term_vector (store s ! doc)), idx))
             (enumerate 0 (documents (engine s)))"
  unfolding scores_def
proof (rule map_cong [OF refl])
  fix p assume p: "p \<in> set (enumerate 0 (documents (engine s)))"
  obtain idx doc where pd: "p = (idx, doc)" by (cases p)
  have "doc \<in> set (documents (engine s))"
    using p in_enumerate_mem [of idx doc] by (simp add: pd)
  then have v: "doc < length (store s)"
      "length (term_vector (store s ! doc)) = length (term_vector_words (engine s))"
    using assms by (simp_all add: list_all_iff)
  have "sim_of (answered s query) (length (store s)) doc
       = cosine_similarity (query_vector (engine s) query) (term_vector (store s ! doc))"
    using sim_of_cosine [of "answered s query" "length (store s)" doc] v
    by (simp add: answered_query_vector answered_old length_query_vector)
  then show "(case p of (idx, doc) \<Rightarrow> (sim_of (answered s query) (length (store s)) doc, idx))
      = (case p of (idx, doc) \<Rightarrow> (cosine_similarity (query_vector (engine s) query)
                                 (term_vector (store s ! doc)), idx))"
    by (simp add: pd)
qed

lemma scores_nth:
  assumes "list_all (\<lambda>r. r < length (store s)
             \<and> length (term_vector (store s ! r)) = length (term_vector_words (engine s)))
           (documents (engine s))"
    and "p \<in> set (scores s query)"
  shows "snd p < length (documents (engine s))
         \<and> fst p = cosine_similarity (query_vector (engine s) query)
                      (term_vector (store s ! (documents (engine s) ! snd p)))"
proof -
  obtain idx doc where e: "(idx, doc) \<in> set (enumerate 0 (documents (engine s)))"
      "p = (cosine_similarity (query_vector (engine s) query) (term_vector (store s ! doc)), idx)"
    using assms(2) unfolding scores_spec [OF assms(1)] by auto
  show ?thesis
    using in_enumerate [OF e(1)] by (simp add: e(2))
qed

lemma set_sort_reverse: "set (sort_reverse k xs) = set xs"
  by (simp add: sort_reverse_def)

lemma scores_later:
  assumes "engine t = engine s" and "length (store s) \<le> length (store t)"
    and "\<forall>a<length (store s). store t ! a = store s ! a"
    and "list_all (\<lambda>r. r < length (store s)) (documents (engine s))"
  shows "scores t query = scores s query"
  unfolding scores_def assms(1)
proof (rule map_cong [OF refl])
  fix p assume p: "p \<in> set (enumerate 0 (documents (engine s)))"
  obtain idx doc where pd: "p = (idx, doc)" by (cases p)
  have "doc \<in> set (documents (engine s))"
    using p in_enumerate_mem [of idx doc] by (simp add: pd)
  then have v: "doc < length (store s)"
    using assms(4) by (simp add: list_all_iff)
  then have v': "doc < length (store t)"
    using assms(2) by simp
  have "sim_of (answered t query) (length (store t)) doc
       = sim_of (answered s query) (length (store s)) doc"
    using v v' assms(3)
    by (intro sim_of_cong) (simp_all add: answered_query_vector answered_old assms(1))
  then show "(case p of (idx, doc) \<Rightarrow> (sim_of (answered t query) (length (store t)) doc, idx))
      = (case p of (idx, doc) \<Rightarrow> (sim_of (answered s query) (length (store s)) doc, idx))"
    by (simp add: pd)
qed

lemma ranking_ok: "wf_index (engine s) \<Longrightarrow> ranking s query = sort_reverse fst (scores s query)"
  by (simp add: ranking_def get_results_ok)

lemma display_results_append:
  "display_results s rs (xs @ ys) out =
     (case display_results s rs xs out of
        (Inl e, out') \<Rightarrow> (Inl e, out')
      | (Inr u, out') \<Rightarrow> display_results s rs ys out')"
  by (induction xs arbitrary: out) (simp_all add: Let_def split: sum.splits)

lemma five_split: "n < 5 \<Longrightarrow> [0, 1, 2, 3, 4] = [0..<n] @ n # [Suc n..<5]"
proof -
  assume n: "n < 5"
  have "[0, 1, 2, 3, 4] = [0..<5]"
    by (simp add: upt_conv_Cons)
  also have "\<dots> = [0..<n] @ [n..<5]"
    using n upt_add_eq_append [of 0 n "5 - n"] by simp
  also have "[n..<5] = n # [Suc n..<5]"
    using n by (simp add: upt_conv_Cons)
  finally show ?thesis .
qed

lemma display_results_lines:
  assumes "\<forall>i\<in>set is. i < length rs \<and> snd (rs ! i) < length (documents (engine s))"
    and "engine t = engine s"
    and "\<forall>i\<in>set is. store t ! (documents (engine s) ! snd (rs ! i))
                       = store s ! (documents (engine s) ! snd (rs ! i))"
  shows "display_results t rs is out = (Inr (), out @ concat (map (result_lines s rs) is))"
proof -
  have "\<forall>i\<in>set is. i < length rs \<and> snd (rs ! i) < length (documents (engine t))"
    using assms(1) by (simp add: assms(2))
  from display_results_ok [OF this, of out]
  have "display_results t rs is out =
     (Inr (), out @ concat (map (\<lambda>i. [Print_score i (fst (rs ! i)),
        Print_document (Document_str (store t ! (documents (engine t) ! snd (rs ! i))))]) is))" .
  moreover have "map (\<lambda>i. [Print_score i (fst (rs ! i)),
        Print_document (Document_str (store t ! (documents (engine t) ! snd (rs ! i))))]) is
      = map (result_lines s rs) is"
    using assms(3) by (simp add: result_lines_def Document_str_def assms(2))
  ultimately show ?thesis by simp
qed

section \<open>What the query loop prints\<close>

lemma ranked_valid:
  assumes "wf_index (engine s)" and "i < length (documents (engine s))"
  shows "i < length (ranking s query)"
    and "snd (ranking s query ! i) < length (documents (engine s))"
  using assms ranked_index_valid [of i s query]
  by (simp_all add: ranking_ok length_sort_reverse length_scores)

lemma length_ranking:
  "wf_index (engine s) \<Longrightarrow> length (ranking s query) = length (documents (engine s))"
  by (simp add: ranking_ok length_sort_reverse length_scores)

lemma query_loop_body_events:
  assumes "wf_index (engine s)"
    and "list_all (\<lambda>r. r < length (store s)) (documents (engine s))"
    and "5 \<le> length (documents (engine s))"
    and "engine t = engine s" and "length (store s) \<le> length (store t)"
    and "\<forall>a<length (store s). store t ! a = store s ! a"
  shows "fst (query_loop_body t queries out) = Inr ()
         \<and> fst (snd (query_loop_body t queries out))
             = out @ concat (map (top_five s) queries) @ [Print_blank, Prompt]"
  using assms(4-6)
proof (induction queries arbitrary: t out)
  case Nil
  show ?case by simp
next
  case (Cons query queries)
  let ?rs = "ranking s query"
  let ?u = "answered t query"
  have wft: "wf_index (engine t)"
    using assms(1) by (simp add: Cons.prems(1))
  have "scores t query = scores s query"
    using Cons.prems assms(2) by (intro scores_later) simp_all
  then have g: "get_results t query = (Inr ?rs, ?u)"
    using assms(1) by (simp add: get_results_ok [OF wft] ranking_ok)
  have valid: "i < length ?rs \<and> snd (?rs ! i) < length (documents (engine s))"
    if "i \<in> set [0, 1, 2, 3, 4]" for i
  proof -
    have "i < length (documents (engine s))"
      using that assms(3) by auto
    then show ?thesis
      using ranked_valid [OF assms(1)] by simp
  qed
  have old: "store ?u ! a = store s ! a" if "a < length (store s)" for a
    using that Cons.prems(2,3) by (simp add: answered_old)
  have same: "store ?u ! (documents (engine s) ! snd (?rs ! i))
                = store s ! (documents (engine s) ! snd (?rs ! i))"
    if "i \<in> set [0, 1, 2, 3, 4]" for i
  proof -
    have "documents (engine s) ! snd (?rs ! i) \<in> set (documents (engine s))"
      using valid [OF that] by simp
    then have "documents (engine s) ! snd (?rs ! i) < length (store s)"
      using assms(2) by (simp add: list_all_iff)
    then show ?thesis by (rule old)
  qed
  have d: "display_results ?u ?rs [0, 1, 2, 3, 4] ((out @ [Print_blank, Prompt]) @ [Print_results])
         = (Inr (), ((out @ [Print_blank, Prompt]) @ [Print_results])
                      @ concat (map (result_lines s ?rs) [0, 1, 2, 3, 4]))"
    using valid same by (intro display_results_lines) (simp_all add: Cons.prems(1))
  have step: "query_loop_body t (query # queries) out
         = query_loop_body ?u queries
             (((out @ [Print_blank, Prompt]) @ [Print_results])
                @ concat (map (result_lines s ?rs) [0, 1, 2, 3, 4]))"
    by (simp only: query_loop_body.simps Let_def g d prod.case sum.case)
  have ih: "fst (query_loop_body ?u queries out') = Inr ()
         \<and> fst (snd (query_loop_body ?u queries out'))
             = out' @ concat (map (top_five s) queries) @ [Print_blank, Prompt]" for out'
    using Cons.prems old by (intro Cons.IH) (simp_all add: answered_length)
  have hd: "((out @ [Print_blank, Prompt]) @ [Print_results])
                @ concat (map (result_lines s ?rs) [0, 1, 2, 3, 4]) = out @ top_five s query"
    by (simp add: top_five_def)
  show ?case
    unfolding step hd using ih by simp
qed

lemma query_loop_body_short_events:
  assumes "wf_index (engine s)"
    and "list_all (\<lambda>r. r < length (store s)) (documents (engine s))"
    and "length (documents (engine s)) < 5"
  shows "fst (query_loop_body s (query # queries) out) = Inl IndexError
         \<and> fst (snd (query_loop_body s (query # queries) out))
             = out @ [Print_blank, Prompt, Print_results]
                 @ concat (map (result_lines s (ranking s query))
                     [0..<length (documents (engine s))])"
proof -
  let ?rs = "ranking s query"
  let ?u = "answered s query"
  let ?n = "length (documents (engine s))"
  let ?out = "out @ [Print_blank, Prompt, Print_results]"
  have g: "get_results s query = (Inr ?rs, ?u)"
    using assms(1) by (simp add: get_results_ok ranking_ok)
  have len: "length ?rs = ?n"
    by (rule length_ranking [OF assms(1)])
  have valid: "\<forall>i\<in>set [0..<?n]. i < length ?rs \<and> snd (?rs ! i) < length (documents (engine s))"
    using ranked_valid [OF assms(1)] by simp
  have same: "\<forall>i\<in>set [0..<?n]. store ?u ! (documents (engine s) ! snd (?rs ! i))
                = store s ! (documents (engine s) ! snd (?rs ! i))"
  proof
    fix i assume "i \<in> set [0..<?n]"
    then have "documents (engine s) ! snd (?rs ! i) \<in> set (documents (engine s))"
      using valid by simp
    then have "documents (engine s) ! snd (?rs ! i) < length (store s)"
      using assms(2) by (simp add: list_all_iff)
    then show "store ?u ! (documents (engine s) ! snd (?rs ! i))
                = store s ! (documents (engine s) ! snd (?rs ! i))"
      by (rule answered_old)
  qed
  have first: "display_results ?u ?rs [0..<?n] ?out
         = (Inr (), ?out @ concat (map (result_lines s ?rs) [0..<?n]))"
    using valid same by (intro display_results_lines) simp_all
  have stop: "display_results ?u ?rs (?n # [Suc ?n..<5]) out' = (Inl IndexError, out')" for out'
    by (simp add: list_get_def len)
  have "display_results ?u ?rs [0, 1, 2, 3, 4] ?out
         = (Inl IndexError, ?out @ concat (map (result_lines s ?rs) [0..<?n]))"
    unfolding five_split [OF assms(3)] display_results_append first
    by (simp add: stop del: display_results.simps)
  then show ?thesis
    by (simp add: g del: display_results.simps)
qed

lemma query_loop_snd:
  "fst (snd (query_loop s queries)) =
     (case fst (query_loop_body s queries [Print_welcome]) of
        Inl e \<Rightarrow> fst (snd (query_loop_body s queries [Print_welcome]))
      | Inr u \<Rightarrow> fst (snd (query_loop_body s queries [Print_welcome])) @ [Print_so_long])"
  by (simp add: query_loop_def split: prod.splits sum.splits)

section \<open>The index that the script builds\<close>

lemma create_term_vectors_ok:
  assumes "tokenized_corpus s0"
  shows "\<exists>s2. create_term_vectors (create_df_table s0) = (Inr (), s2)
           \<and> engine s2 = engine (create_df_table s0)
           \<and> length (store s2) = length (store s0)
           \<and> (\<forall>a<length (store s0). store s2 ! a =
                 (if a \<in> set (documents (engine s0))
                  then weighted (engine (create_df_table s0)) (store s0 ! a) else store s0 ! a))"
proof -
  let ?s1 = "create_df_table s0"
  have docs: "documents (engine ?s1) = documents (engine s0)"
    by (simp add: create_df_table_engine)
  have "\<forall>r\<in>set (documents (engine ?s1)).
          r < length (store ?s1) \<and> positive_counts (terms (store ?s1 ! r))"
    using assms by (simp add: docs create_df_table_store tokenized_corpus_def list_all_iff)
  from create_term_vectors_loop_ok [OF create_df_table_wf [OF assms] this]
  obtain s' where "create_term_vectors_loop ?s1 (documents (engine ?s1)) = (Inr (), s')"
      "engine s' = engine ?s1" "length (store s') = length (store ?s1)"
      "\<forall>a<length (store ?s1). store s' ! a =
         (if a \<in> set (documents (engine ?s1))
          then weighted (engine ?s1) (store ?s1 ! a) else store ?s1 ! a)"
    by blast
  then show ?thesis
    by (simp add: create_term_vectors_def docs create_df_table_store)
qed

lemma index_corpus_ok:
  "\<exists>s. index_corpus files = (Inr (), s) \<and> wf_index (engine s)
       \<and> N (engine s) = int (length files)
       \<and> documents (engine s) = [0..<length files]
       \<and> length (store s) = length files"
proof -
  let ?s0 = "read_files TFIDF_Engine_init files"
  have e0: "documents (engine ?s0) = [0..<length files]" "N (engine ?s0) = int (length files)"
    and st0: "length (store ?s0) = length files"
    by (simp_all add: read_files_def Let_def read_files_loop_engine read_files_loop_store
        TFIDF_Engine_init_def)
  obtain s2 where s2: "create_term_vectors (create_df_table ?s0) = (Inr (), s2)"
      "engine s2 = engine (create_df_table ?s0)" "length (store s2) = length (store ?s0)"
    using create_term_vectors_ok [OF read_files_tokenized [of files]] by blast
  have "wf_index (engine s2)"
    using create_df_table_wf [OF read_files_tokenized [of files]] by (simp add: s2(2))
  then show ?thesis
    using s2 e0 st0 by (simp add: index_corpus_def create_df_table_engine)
qed

lemma index_corpus_state:
  "\<exists>s. index_corpus files = (Inr (), s)
       \<and> engine s = engine (create_df_table (read_files TFIDF_Engine_init files))
       \<and> store s = map (weighted (engine s)) (map loaded files)"
proof -
  let ?a = "read_files TFIDF_Engine_init files"
  have st: "store ?a = map loaded files"
    and docs: "documents (engine ?a) = [0..<length files]"
    by (simp_all add: read_files_def Let_def read_files_loop_engine read_files_loop_store
        TFIDF_Engine_init_def)
  obtain s where s: "create_term_vectors (create_df_table ?a) = (Inr (), s)"
      "engine s = engine (create_df_table ?a)" "length (store s) = length (store ?a)"
      "\<forall>a<length (store ?a). store s ! a =
         (if a \<in> set (documents (engine ?a))
          then weighted (engine (create_df_table ?a)) (store ?a ! a) else store ?a ! a)"
    using create_term_vectors_ok [OF read_files_tokenized [of files]] by blast
  have "store s = map (weighted (engine s)) (map loaded files)"
  proof (rule nth_equalityI)
    show "length (store s) = length (map (weighted (engine s)) (map loaded files))"
      by (simp add: s(3) st)
    fix i assume "i < length (store s)"
    then have i: "i < length files"
      by (simp add: s(3) st)
    then have "store s ! i = weighted (engine (create_df_table ?a)) (store ?a ! i)"
      using s(4) by (simp add: st docs)
    then show "store s ! i = map (weighted (engine s)) (map loaded files) ! i"
      using i by (simp add: st s(2))
  qed
  then show ?thesis
    using s(1,2) by (simp add: index_corpus_def)
qed

lemma index_corpus_indexed:
  "\<exists>s. index_corpus files = (Inr (), s) \<and> wf_index (engine s)
       \<and> N (engine s) = int (length (documents (engine s)))
       \<and> list_all (\<lambda>r. r < length (store s)
             \<and> length (term_vector (store s ! r)) = length (term_vector_words (engine s)))
           (documents (engine s))"
proof -
  obtain s where s: "index_corpus files = (Inr (), s)"
      "store s = map (weighted (engine s)) (map loaded files)"
    using index_corpus_state [of files] by blast
  obtain s' where s': "index_corpus files = (Inr (), s')" "wf_index (engine s')"
      "N (engine s') = int (length files)" "documents (engine s') = [0..<length files]"
    using index_corpus_ok [of files] by blast
  have same: "s' = s"
    using s(1) s'(1) by simp
  have "list_all (\<lambda>r. r < length (store s)
             \<and> length (term_vector (store s ! r)) = length (term_vector_words (engine s)))
           (documents (engine s))"
    using s'(4) by (simp add: same s(2) list_all_iff weighted_vector)
  then show ?thesis
    using s(1) s'(2,3,4) by (simp add: same)
qed

section \<open>A corpus of two files\<close>

lemma tokenize_a_b: "tokenize [97, 32, 98] = [([97], 1), ([98], 1)]"
  by (simp add: tokenize_def re_match_alnum_def strip1_def py_isspace_def lower_def dict_count_def)

lemma tokenize_a: "tokenize [97] = [([97], 1)]"
  by (simp add: tokenize_def re_match_alnum_def strip1_def py_isspace_def lower_def dict_count_def)

lemma read_files_store: "store (read_files TFIDF_Engine_init fs) = map loaded fs"
  by (simp add: read_files_def Let_def read_files_loop_store TFIDF_Engine_init_def)

lemma read_files_engine:
  "engine (read_files TFIDF_Engine_init fs) =
     \<lparr>corpus_location = ''news_corpus'', documents = [0..<length fs], N = int (length fs),
      df_table = [], term_vector_words = []\<rparr>"
  by (simp add: read_files_def Let_def read_files_loop_engine TFIDF_Engine_init_def)

lemma example_store:
  "store (read_files TFIDF_Engine_init example_files) =
     [\<lparr>doc_text = [97, 32, 98], terms = [([97], 1), ([98], 1)], term_vector = []\<rparr>,
      \<lparr>doc_text = [97], terms = [([97], 1)], term_vector = []\<rparr>]"
  by (simp add: read_files_store example_files_def loaded_def tokenize_a_b tokenize_a)

lemma example_documents:
  "documents (engine (read_files TFIDF_Engine_init example_files)) = [0, 1]"
  by (simp add: read_files_engine example_files_def upt_conv_Cons)

lemma example_df_table:
  "df_table (engine (create_df_table (read_files TFIDF_Engine_init example_files)))
     = [([97], 2), ([98], 1)]"
proof -
  have "df_table (engine (create_df_table (read_files TFIDF_Engine_init example_files)))
      = create_df_table_docs (store (read_files TFIDF_Engine_init example_files)) [] [0, 1]"
    using example_documents by (simp add: create_df_table_engine read_files_engine)
  then show ?thesis
    by (simp add: example_store dict_count_def)
qed

lemma example_vocabulary:
  "term_vector_words (engine (create_df_table (read_files TFIDF_Engine_init example_files)))
     = [[97], [98]]"
  by (simp add: create_df_table_vocabulary example_df_table)

lemma example_N:
  "N (engine (create_df_table (read_files TFIDF_Engine_init example_files))) = 2"
  by (simp add: create_df_table_engine read_files_engine example_files_def)

section \<open>Rankings of the example corpora\<close>

lemma dot_self: "dot u u = (magnitude u)\<^sup>2"
proof -
  have "0 \<le> (\<Sum>i<length u. (u ! i)\<^sup>2)"
    by (simp add: sum_nonneg)
  then show ?thesis
    by (simp add: dot_def magnitude_def power2_eq_square)
qed

lemma cosine_self: "magnitude u \<noteq> 0 \<Longrightarrow> cosine_similarity u u = 1"
  by (simp add: cosine_similarity_def dot_self power2_eq_square)

lemma cosine_orthogonal: "dot u v = 0 \<Longrightarrow> cosine_similarity u v = 0"
  by (simp add: cosine_similarity_def)

lemma tokenize_b: "tokenize [98] = [([98], 1)]"
  by (simp add: tokenize_def re_match_alnum_def strip1_def py_isspace_def lower_def dict_count_def)

lemma tokenize_c: "tokenize [99] = [([99], 1)]"
  by (simp add: tokenize_def re_match_alnum_def strip1_def py_isspace_def lower_def dict_count_def)

lemma tokenize_d: "tokenize [100] = [([100], 1)]"
  by (simp add: tokenize_def re_match_alnum_def strip1_def py_isspace_def lower_def dict_count_def)

lemma tokenize_e: "tokenize [101] = [([101], 1)]"
  by (simp add: tokenize_def re_match_alnum_def strip1_def py_isspace_def lower_def dict_count_def)

lemma index_engine:
  "engine (create_df_table (read_files TFIDF_Engine_init files)) =
     \<lparr>corpus_location = ''news_corpus'', documents = [0..<length files], N = int (length files),
      df_table = create_df_table_docs (map loaded files) [] [0..<length files],
      term_vector_words = map fst (create_df_table_docs (map loaded files) [] [0..<length files])\<rparr>"
  by (simp add: create_df_table_engine read_files_store read_files_engine)

lemma swapped_engine:
  "engine (create_df_table (read_files TFIDF_Engine_init swapped_files)) =
     \<lparr>corpus_location = ''news_corpus'', documents = [0, 1], N = 2,
      df_table = [([97], 2), ([98], 1)], term_vector_words = [[97], [98]]\<rparr>"
proof -
  have u: "[0..<length swapped_files] = [0, 1]"
    by (simp add: swapped_files_def upt_conv_Cons)
  have "create_df_table_docs (map loaded swapped_files) [] [0, 1] = [([97], 2), ([98], 1)]"
    by (simp add: swapped_files_def loaded_def tokenize_a tokenize_a_b dict_count_def)
  then show ?thesis
    unfolding index_engine u by (simp add: swapped_files_def)
qed

lemma example_engine:
  "engine (create_df_table (read_files TFIDF_Engine_init example_files)) =
     \<lparr>corpus_location = ''news_corpus'', documents = [0, 1], N = 2,
      df_table = [([97], 2), ([98], 1)], term_vector_words = [[97], [98]]\<rparr>"
proof -
  have u: "[0..<length example_files] = [0, 1]"
    by (simp add: example_files_def upt_conv_Cons)
  have "create_df_table_docs (map loaded example_files) [] [0, 1] = [([97], 2), ([98], 1)]"
    by (simp add: example_files_def loaded_def tokenize_a tokenize_a_b dict_count_def)
  then show ?thesis
    unfolding index_engine u by (simp add: example_files_def)
qed

lemma five_engine:
  "engine (create_df_table (read_files TFIDF_Engine_init five_files)) =
     \<lparr>corpus_location = ''news_corpus'', documents = [0, 1, 2, 3, 4], N = 5,
      df_table = [([97], 1), ([98], 1), ([99], 1), ([100], 1), ([101], 1)],
      term_vector_words = [[97], [98], [99], [100], [101]]\<rparr>"
proof -
  have u: "[0..<length five_files] = [0, 1, 2, 3, 4]"
    by (simp add: five_files_def upt_conv_Cons)
  have "create_df_table_docs (map loaded five_files) [] [0, 1, 2, 3, 4]
      = [([97], 1), ([98], 1), ([99], 1), ([100], 1), ([101], 1)]"
    by (simp add: five_files_def loaded_def tokenize_a tokenize_b tokenize_c tokenize_d
        tokenize_e dict_count_def)
  then show ?thesis
    unfolding index_engine u by (simp add: five_files_def)
qed

lemma index_corpus_full:
  "\<exists>s. index_corpus files = (Inr (), s) \<and> wf_index (engine s)
       \<and> N (engine s) = int (length (documents (engine s)))
       \<and> list_all (\<lambda>r. r < length (store s)
             \<and> length (term_vector (store s ! r)) = length (term_vector_words (engine s)))
           (documents (engine s))
       \<and> engine s = engine (create_df_table (read_files TFIDF_Engine_init files))
       \<and> store s = map (weighted (engine s)) (map loaded files)"
proof -
  obtain s where s: "index_corpus files = (Inr (), s)"
      "engine s = engine (create_df_table (read_files TFIDF_Engine_init files))"
      "store s = map (weighted (engine s)) (map loaded files)"
    using index_corpus_state [of files] by blast
  obtain s' where s': "index_corpus files = (Inr (), s')" "wf_index (engine s')"
      "N (engine s') = int (length (documents (engine s')))"
      "list_all (\<lambda>r. r < length (store s')
             \<and> length (term_vector (store s' ! r)) = length (term_vector_words (engine s')))
           (documents (engine s'))"
    using index_corpus_indexed [of files] by blast
  have same: "s' = s"
    using s(1) s'(1) by simp
  show ?thesis
    using s s'(2,3,4) unfolding same by blast
qed

lemma valid_refs:
  "list_all (\<lambda>r. r < length (store s) \<and> P r) (documents (engine s)) \<Longrightarrow>
   list_all (\<lambda>r. r < length (store s)) (documents (engine s))"
  by (simp add: list_all_iff)

lemma swapped_ranking:
  "fst (get_results (snd (index_corpus swapped_files)) [98]) = Inr [(1, 1), (0, 0)]"
proof -
  obtain s where s: "index_corpus swapped_files = (Inr (), s)" "wf_index (engine s)"
      "list_all (\<lambda>r. r < length (store s)
             \<and> length (term_vector (store s ! r)) = length (term_vector_words (engine s)))
           (documents (engine s))"
      "engine s = engine (create_df_table (read_files TFIDF_Engine_init swapped_files))"
      "store s = map (weighted (engine s)) (map loaded swapped_files)"
    using index_corpus_full [of swapped_files] by blast
  have e: "engine s = \<lparr>corpus_location = ''news_corpus'', documents = [0, 1], N = 2,
      df_table = [([97], 2), ([98], 1)], term_vector_words = [[97], [98]]\<rparr>"
    unfolding s(4) by (rule swapped_engine)
  have q: "query_vector (engine s) [98] = [0, ln 2]"
    by (simp add: e query_vector_def spec_weight_def tokenize_b)
  have v: "map (\<lambda>d. term_vector (store s ! d)) [0, 1] = [[0, 0], [0, ln 2]]"
    unfolding s(5)
    by (simp add: e swapped_files_def weighted_vector loaded_def spec_weight_def tokenize_a
        tokenize_a_b)
  have c: "cosine_similarity [0, ln 2] [0, 0] = 0" "cosine_similarity [0, ln 2] [0, ln 2] = 1"
    by (simp_all add: cosine_orthogonal cosine_self dot_def magnitude_zero lessThan_Suc)
  have "scores s [98] = [(0, 0), (1, 1)]"
    using v unfolding scores_spec [OF s(3)] q
    by (simp add: e enumerate_eq_zip upt_conv_Cons c)
  then have "ranking s [98] = [(1, 1), (0, 0)]"
    by (simp add: ranking_ok [OF s(2)] sort_reverse_def)
  then show ?thesis
    by (simp add: s(1) get_results_ok [OF s(2)] ranking_ok [OF s(2)])
qed

lemma example_ranking:
  "\<exists>s. index_corpus example_files = (Inr (), s) \<and> wf_index (engine s)
       \<and> list_all (\<lambda>r. r < length (store s)) (documents (engine s))
       \<and> documents (engine s) = [0, 1]
       \<and> map (\<lambda>d. doc_text (store s ! d)) [0, 1] = [[97, 32, 98], [97]]
       \<and> ranking s [98] = [(1, 0), (0, 1)]"
proof -
  obtain s where s: "index_corpus example_files = (Inr (), s)" "wf_index (engine s)"
      "list_all (\<lambda>r. r < length (store s)
             \<and> length (term_vector (store s ! r)) = length (term_vector_words (engine s)))
           (documents (engine s))"
      "engine s = engine (create_df_table (read_files TFIDF_Engine_init example_files))"
      "store s = map (weighted (engine s)) (map loaded example_files)"
    using index_corpus_full [of example_files] by blast
  have e: "engine s = \<lparr>corpus_location = ''news_corpus'', documents = [0, 1], N = 2,
      df_table = [([97], 2), ([98], 1)], term_vector_words = [[97], [98]]\<rparr>"
    unfolding s(4) by (rule example_engine)
  have q: "query_vector (engine s) [98] = [0, ln 2]"
    by (simp add: e query_vector_def spec_weight_def tokenize_b)
  have v: "map (\<lambda>d. term_vector (store s ! d)) [0, 1] = [[0, ln 2], [0, 0]]"
    unfolding s(5)
    by (simp add: e example_files_def weighted_vector loaded_def spec_weight_def tokenize_a
        tokenize_a_b)
  have c: "cosine_similarity [0, ln 2] [0, 0] = 0" "cosine_similarity [0, ln 2] [0, ln 2] = 1"
    by (simp_all add: cosine_orthogonal cosine_self dot_def magnitude_zero lessThan_Suc)
  have "scores s [98] = [(1, 0), (0, 1)]"
    using v unfolding scores_spec [OF s(3)] q
    by (simp add: e enumerate_eq_zip upt_conv_Cons c)
  then have r: "ranking s [98] = [(1, 0), (0, 1)]"
    by (simp add: ranking_ok [OF s(2)] sort_reverse_def)
  have t: "map (\<lambda>d. doc_text (store s ! d)) [0, 1] = [[97, 32, 98], [97]]"
    unfolding s(5) by (simp add: example_files_def loaded_def)
  show ?thesis
    using s(1,2) valid_refs [OF s(3)] r t by (simp add: e)
qed

lemma five_ranking:
  "\<exists>s. index_corpus five_files = (Inr (), s) \<and> wf_index (engine s)
       \<and> list_all (\<lambda>r. r < length (store s)) (documents (engine s))
       \<and> documents (engine s) = [0, 1, 2, 3, 4]
       \<and> map (\<lambda>d. doc_text (store s ! d)) [0, 1, 2, 3, 4]
           = [[97], [98], [99], [100], [101]]
       \<and> ranking s [98] = [(1, 1), (0, 0), (0, 2), (0, 3), (0, 4)]"
proof -
  obtain s where s: "index_corpus five_files = (Inr (), s)" "wf_index (engine s)"
      "list_all (\<lambda>r. r < length (store s)
             \<and> length (term_vector (store s ! r)) = length (term_vector_words (engine s)))
           (documents (engine s))"
      "engine s = engine (create_df_table (read_files TFIDF_Engine_init five_files))"
      "store s = map (weighted (engine s)) (map loaded five_files)"
    using index_corpus_full [of five_files] by blast
  have e: "engine s = \<lparr>corpus_location = ''news_corpus'', documents = [0, 1, 2, 3, 4], N = 5,
      df_table = [([97], 1), ([98], 1), ([99], 1), ([100], 1), ([101], 1)],
      term_vector_words = [[97], [98], [99], [100], [101]]\<rparr>"
    unfolding s(4) by (rule five_engine)
  have q: "query_vector (engine s) [98] = [0, ln 5, 0, 0, 0]"
    by (simp add: e query_vector_def spec_weight_def tokenize_b)
  have v: "map (\<lambda>d. term_vector (store s ! d)) [0, 1, 2, 3, 4]
      = [[ln 5, 0, 0, 0, 0], [0, ln 5, 0, 0, 0], [0, 0, ln 5, 0, 0], [0, 0, 0, ln 5, 0],
         [0, 0, 0, 0, ln 5]]"
    unfolding s(5)
    by (simp add: e five_files_def weighted_vector loaded_def spec_weight_def tokenize_a
        tokenize_b tokenize_c tokenize_d tokenize_e)
  have c: "cosine_similarity [0, ln 5, 0, 0, 0] [ln 5, 0, 0, 0, 0] = 0"
      "cosine_similarity [0, ln 5, 0, 0, 0] [0, ln 5, 0, 0, 0] = 1"
      "cosine_similarity [0, ln 5, 0, 0, 0] [0, 0, ln 5, 0, 0] = 0"
      "cosine_similarity [0, ln 5, 0, 0, 0] [0, 0, 0, ln 5, 0] = 0"
      "cosine_similarity [0, ln 5, 0, 0, 0] [0, 0, 0, 0, ln 5] = 0"
    by (simp_all add: cosine_orthogonal cosine_self dot_def magnitude_zero lessThan_Suc)
  have "scores s [98] = [(0, 0), (1, 1), (0, 2), (0, 3), (0, 4)]"
    using v unfolding scores_spec [OF s(3)] q
    by (simp add: e enumerate_eq_zip upt_conv_Cons c)
  then have r: "ranking s [98] = [(1, 1), (0, 0), (0, 2), (0, 3), (0, 4)]"
    by (simp add: ranking_ok [OF s(2)] sort_reverse_def)
  have t: "map (\<lambda>d. doc_text (store s ! d)) [0, 1, 2, 3, 4]
           = [[97], [98], [99], [100], [101]]"
    unfolding s(5) by (simp add: five_files_def loaded_def)
  show ?thesis
    using s(1,2) valid_refs [OF s(3)] r t by (simp add: e)
qed

section \<open>The claims\<close>

text \<open>
  C1.  For every document \<open>d\<close> (an object of the store whose term counts are positive, as
  \<open>tokenize\<close> returns them) and every corpus index built by \<open>create_df_table\<close> on a
  tokenized corpus, \<open>create_term_vector(d)\<close> returns without an exception and leaves in
  \<open>d.term_vector\<close> a vector with one entry per vocabulary word; the vocabulary word \<open>w\<close>
  at position \<open>i\<close> is a key of \<open>df_table\<close>, with a document frequency \<open>k \<ge> 1\<close>, and the
  entry at \<open>i\<close> is \<open>(1 + ln c) * ln (N / k)\<close> when \<open>w\<close> occurs in \<open>d.terms\<close> with count
  \<open>c\<close>, and \<open>0\<close> when it does not occur.
\<close>

theorem create_term_vector_tf_idf:
  assumes "tokenized_corpus s0" and "engine s = engine (create_df_table s0)"
    and "d < length (store s)" and "positive_counts (terms (store s ! d))"
    and "i < length (term_vector_words (engine s))"
  shows "\<exists>s' k. create_term_vector s d = (Inr (), s')
           \<and> length (term_vector (store s' ! d)) = length (term_vector_words (engine s))
           \<and> map_of (df_table (engine s)) (term_vector_words (engine s) ! i) = Some k
           \<and> 1 \<le> k
           \<and> term_vector (store s' ! d) ! i =
               (case map_of (terms (store s ! d)) (term_vector_words (engine s) ! i) of
                  None \<Rightarrow> 0
                | Some c \<Rightarrow> (1 + ln (real_of_int c)) * ln (real_of_int (N (engine s)) / real_of_int k))"
proof -
  have wf: "wf_index (engine s)"
    using create_df_table_wf [OF assms(1)] by (simp add: assms(2))
  let ?w = "term_vector_words (engine s) ! i"
  have "?w \<in> set (term_vector_words (engine s))"
    using assms(5) by simp
  then obtain k where k: "map_of (df_table (engine s)) ?w = Some k" "1 \<le> k"
    using wf_index_word [OF wf] by blast
  have "create_term_vector s d = (Inr (), update_doc s d (weighted (engine s)))"
    using create_term_vector_weighted [OF wf assms(4) assms(3)] .
  moreover have "term_vector (store (update_doc s d (weighted (engine s))) ! d)
      = map (spec_weight (engine s) (terms (store s ! d))) (term_vector_words (engine s))"
    using assms(3) by (simp add: update_doc_nth weighted_vector)
  ultimately show ?thesis
    using k assms(5) by (simp add: spec_weight_def split: option.splits)
qed

text \<open>
  On the corpus \<open>"a b"\<close>, \<open>"a"\<close> the vocabulary is \<open>a, b\<close> with document frequencies
  \<open>2\<close> and \<open>1\<close>, and the vector of the first document is
  \<open>[(1 + ln 1) * ln (2 / 2), (1 + ln 1) * ln (2 / 1)]\<close>.
\<close>

theorem create_term_vector_tf_idf_witness:
  "\<exists>s'. create_term_vector (create_df_table (read_files TFIDF_Engine_init example_files)) 0
          = (Inr (), s')
        \<and> length (term_vector (store s' ! 0)) = 2
        \<and> term_vector (store s' ! 0) ! 0 = (1 + ln 1) * ln (2 / 2)
        \<and> term_vector (store s' ! 0) ! 1 = (1 + ln 1) * ln (2 / 1)"
proof -
  let ?a = "read_files TFIDF_Engine_init example_files"
  let ?b = "create_df_table ?a"
  have t: "tokenized_corpus ?a"
    by (rule read_files_tokenized)
  have st: "store ?b = store ?a"
    by (rule create_df_table_store)
  have d: "0 < length (store ?b)"
    by (simp add: st example_store)
  have p: "positive_counts (terms (store ?b ! 0))"
    by (simp add: st example_store positive_counts_def)
  have i0: "0 < length (term_vector_words (engine ?b))"
    and i1: "1 < length (term_vector_words (engine ?b))"
    by (simp_all add: example_vocabulary)
  obtain s' k where a: "create_term_vector ?b 0 = (Inr (), s')"
      "length (term_vector (store s' ! 0)) = length (term_vector_words (engine ?b))"
      "map_of (df_table (engine ?b)) (term_vector_words (engine ?b) ! 0) = Some k"
      "term_vector (store s' ! 0) ! 0 =
         (case map_of (terms (store ?b ! 0)) (term_vector_words (engine ?b) ! 0) of
            None \<Rightarrow> 0
          | Some c \<Rightarrow> (1 + ln (real_of_int c)) * ln (real_of_int (N (engine ?b)) / real_of_int k))"
    using create_term_vector_tf_idf [OF t refl d p i0] by blast
  obtain s'' k' where b: "create_term_vector ?b 0 = (Inr (), s'')"
      "map_of (df_table (engine ?b)) (term_vector_words (engine ?b) ! 1) = Some k'"
      "term_vector (store s'' ! 0) ! 1 =
         (case map_of (terms (store ?b ! 0)) (term_vector_words (engine ?b) ! 1) of
            None \<Rightarrow> 0
          | Some c \<Rightarrow> (1 + ln (real_of_int c)) * ln (real_of_int (N (engine ?b)) / real_of_int k'))"
    using create_term_vector_tf_idf [OF t refl d p i1] by blast
  have same: "s'' = s'"
    using a(1) b(1) by simp
  have k: "k = 2" "k' = 1"
    using a(3) b(2) by (simp_all add: example_vocabulary example_df_table)
  show ?thesis
    using a(2,4) b(3)
    by (simp add: a(1) same k st example_store example_vocabulary example_N)
qed

text \<open>
  C3.  For every query string and every indexed corpus (a well-formed index whose \<open>N\<close>
  is the number of documents, every document an object of the store with a term vector
  of the vocabulary's length), \<open>get_results\<close> returns, without an exception, a list of
  exactly one (similarity, document index) pair per document: its length is \<open>N\<close>, the
  document indices are a permutation of \<open>0..N-1\<close>, the list is sorted non-increasing
  by similarity, and the similarity of each pair is the cosine similarity of the vector
  of the query with the term vector of the document at the pair's index.
\<close>

theorem get_results_ranking:
  assumes "wf_index (engine s)" and "N (engine s) = int (length (documents (engine s)))"
    and "list_all (\<lambda>r. r < length (store s)
           \<and> length (term_vector (store s ! r)) = length (term_vector_words (engine s)))
         (documents (engine s))"
  shows "\<exists>rs s'. get_results s query = (Inr rs, s')
           \<and> int (length rs) = N (engine s)
           \<and> mset (map snd rs) = mset [0..<length (documents (engine s))]
           \<and> sorted_wrt (\<lambda>a b. fst b \<le> fst a) rs
           \<and> (\<forall>p\<in>set rs. fst p =
                 cosine_similarity (query_vector (engine s) query)
                   (term_vector (store s ! (documents (engine s) ! snd p))))"
proof -
  let ?rs = "sort_reverse fst (scores s query)"
  have "mset (map snd ?rs) = mset (map snd (scores s query))"
    using mset_sort_reverse [of fst "scores s query"] by (metis mset_map)
  then have perm: "mset (map snd ?rs) = mset [0..<length (documents (engine s))]"
    by (simp only: map_snd_scores)
  have sims: "\<forall>p\<in>set ?rs. fst p =
                 cosine_similarity (query_vector (engine s) query)
                   (term_vector (store s ! (documents (engine s) ! snd p)))"
    using scores_nth [OF assms(3)] by (simp add: set_sort_reverse)
  show ?thesis
    using sorted_sort_reverse [of fst "scores s query"] assms(2) perm sims
    by (simp add: get_results_ok [OF assms(1)] length_sort_reverse length_scores)
qed

text \<open>
  On the corpus \<open>"a"\<close>, \<open>"a b"\<close> the query \<open>"b"\<close> ranks the second document first,
  with similarity \<open>1\<close>, and the first document last, with similarity \<open>0\<close>.
\<close>

theorem get_results_ranking_witness:
  "fst (get_results (snd (index_corpus swapped_files)) [98]) = Inr [(1, 1), (0, 0)]
   \<and> cosine_similarity (query_vector (engine (snd (index_corpus swapped_files))) [98])
       (term_vector (store (snd (index_corpus swapped_files))
          ! (documents (engine (snd (index_corpus swapped_files))) ! 1))) = 1
   \<and> cosine_similarity (query_vector (engine (snd (index_corpus swapped_files))) [98])
       (term_vector (store (snd (index_corpus swapped_files))
          ! (documents (engine (snd (index_corpus swapped_files))) ! 0))) = 0"
proof -
  obtain s where s: "index_corpus swapped_files = (Inr (), s)" "wf_index (engine s)"
      "N (engine s) = int (length (documents (engine s)))"
      "list_all (\<lambda>r. r < length (store s)
             \<and> length (term_vector (store s ! r)) = length (term_vector_words (engine s)))
           (documents (engine s))"
    using index_corpus_indexed [of swapped_files] by blast
  have eq: "snd (index_corpus swapped_files) = s"
    by (simp add: s(1))
  have r: "fst (get_results s [98]) = Inr [(1, 1), (0, 0)]"
    using swapped_ranking by (simp add: eq)
  show ?thesis
    unfolding eq
    using get_results_ranking [OF s(2,3,4), of "[98]"] r
    by auto
qed

text \<open>
  C4.  For every pair of term vectors of equal length, \<open>calculate_cosine_sim\<close> returns
  (and never raises) the dot product divided by the product of the Euclidean magnitudes,
  except that the result is \<open>0\<close> whenever a magnitude is zero; in particular the
  similarity of any vector with a zero vector is \<open>0\<close>.
\<close>

theorem calculate_cosine_sim_spec:
  assumes "length (term_vector (store s ! d1)) = length (term_vector (store s ! d2))"
  shows "calculate_cosine_sim s d1 d2 =
           Inr (if magnitude (term_vector (store s ! d1)) = 0
                   \<or> magnitude (term_vector (store s ! d2)) = 0
                then 0
                else dot (term_vector (store s ! d1)) (term_vector (store s ! d2))
                     / (magnitude (term_vector (store s ! d1))
                        * magnitude (term_vector (store s ! d2))))
         \<and> ((\<forall>x\<in>set (term_vector (store s ! d1)). x = 0)
              \<or> (\<forall>x\<in>set (term_vector (store s ! d2)). x = 0)
            \<longrightarrow> calculate_cosine_sim s d1 d2 = Inr 0)"
  using cos_general [OF assms] by (simp add: magnitude_zero)

text \<open>
  The similarity of \<open>[3, 4]\<close> with \<open>[0, 0]\<close> is \<open>0\<close>, and with \<open>[4, 3]\<close> it is
  \<open>24 / 25\<close>.
\<close>

theorem calculate_cosine_sim_spec_witness:
  "calculate_cosine_sim example_vectors 0 1 = Inr 0
   \<and> calculate_cosine_sim example_vectors 0 2 = Inr (24 / 25)"
proof -
  have v: "term_vector (store example_vectors ! 0) = [3, 4]"
      "term_vector (store example_vectors ! 1) = [0, 0]"
      "term_vector (store example_vectors ! 2) = [4, 3]"
    by (simp_all add: example_vectors_def)
  have m: "magnitude [3, 4] = 5" "magnitude [4, 3] = 5"
    by (simp_all add: magnitude_def lessThan_Suc numeral_2_eq_2 real_sqrt_unique)
  have d: "dot [3, 4] [4, 3] = 24"
    by (simp add: dot_def lessThan_Suc numeral_2_eq_2)
  have "calculate_cosine_sim example_vectors 0 1 = Inr 0"
    using calculate_cosine_sim_spec [of example_vectors 0 1, unfolded v, THEN conjunct2]
    by simp
  moreover have "calculate_cosine_sim example_vectors 0 2 = Inr (24 / 25)"
    using calculate_cosine_sim_spec [of example_vectors 0 2, unfolded v, THEN conjunct1]
    by (simp add: m d)
  ultimately show ?thesis by simp
qed



text \<open>
  C6.  After \<open>create_term_vectors\<close> has run on an indexed corpus (it returns without an
  exception and leaves the vocabulary alone), the term vector of every document of the
  corpus has the length of the vocabulary, the same for all documents, and its entry at
  position \<open>i\<close> is the weight of the vocabulary word at position \<open>i\<close>.
\<close>

theorem create_term_vectors_aligned:
  assumes "tokenized_corpus s0" and "r \<in> set (documents (engine s0))"
  shows "\<exists>s2. create_term_vectors (create_df_table s0) = (Inr (), s2)
           \<and> term_vector_words (engine s2) = term_vector_words (engine (create_df_table s0))
           \<and> length (term_vector (store s2 ! r)) = length (term_vector_words (engine s2))
           \<and> (\<forall>i<length (term_vector_words (engine s2)).
                 term_vector (store s2 ! r) ! i
                   = spec_weight (engine s2) (terms (store s2 ! r)) (term_vector_words (engine s2) ! i))"
proof -
  obtain s2 where s2: "create_term_vectors (create_df_table s0) = (Inr (), s2)"
      "engine s2 = engine (create_df_table s0)"
      "\<forall>a<length (store s0). store s2 ! a =
         (if a \<in> set (documents (engine s0))
          then weighted (engine (create_df_table s0)) (store s0 ! a) else store s0 ! a)"
    using create_term_vectors_ok [OF assms(1)] by blast
  have "r < length (store s0)"
    using assms by (simp add: tokenized_corpus_def list_all_iff)
  then have "store s2 ! r = weighted (engine s2) (store s0 ! r)"
    using s2(3) assms(2) by (simp add: s2(2))
  then show ?thesis
    using s2(1,2) by (simp add: weighted_vector)
qed

theorem create_term_vectors_aligned_witness:
  "\<exists>s2. create_term_vectors (create_df_table (read_files TFIDF_Engine_init example_files))
          = (Inr (), s2)
        \<and> term_vector_words (engine s2) = [[97], [98]]
        \<and> length (term_vector (store s2 ! 0)) = 2
        \<and> length (term_vector (store s2 ! 1)) = 2"
proof -
  let ?a = "read_files TFIDF_Engine_init example_files"
  have t: "tokenized_corpus ?a"
    by (rule read_files_tokenized)
  have r: "0 \<in> set (documents (engine ?a))" "1 \<in> set (documents (engine ?a))"
    by (simp_all add: example_documents)
  show ?thesis
    using create_term_vectors_aligned [OF t r(1)] create_term_vectors_aligned [OF t r(2)]
    by (auto simp: example_vocabulary)
qed

text \<open>
  C7.  For an empty corpus (no documents, an empty table), \<open>create_df_table\<close> yields an
  empty \<open>df_table\<close> and an empty vocabulary, \<open>create_term_vectors\<close> does nothing, and for
  every query string \<open>get_results\<close> returns the empty list without an exception: the
  loop over the vocabulary has no iteration, so the division of the idf is never
  reached.
\<close>

theorem empty_corpus_no_error:
  assumes "documents (engine s) = []" and "df_table (engine s) = []"
  shows "df_table (engine (create_df_table s)) = []
         \<and> term_vector_words (engine (create_df_table s)) = []
         \<and> create_term_vectors (create_df_table s) = (Inr (), create_df_table s)
         \<and> fst (get_results (create_df_table s) query) = Inr []"
proof -
  have e: "df_table (engine (create_df_table s)) = []"
      "term_vector_words (engine (create_df_table s)) = []"
      "documents (engine (create_df_table s)) = []"
    using assms by (simp_all add: create_df_table_engine)
  have wf: "wf_index (engine (create_df_table s))"
    by (simp add: wf_index_def e)
  have "scores (create_df_table s) query = []"
    by (simp add: scores_def e)
  then have "fst (get_results (create_df_table s) query) = Inr []"
    by (simp add: get_results_ok [OF wf] sort_reverse_def)
  then show ?thesis
    by (simp add: e create_term_vectors_def)
qed

theorem empty_corpus_no_error_witness:
  "df_table (engine (create_df_table (read_files TFIDF_Engine_init []))) = []
   \<and> term_vector_words (engine (create_df_table (read_files TFIDF_Engine_init []))) = []
   \<and> N (engine (create_df_table (read_files TFIDF_Engine_init []))) = 0
   \<and> fst (create_term_vectors (create_df_table (read_files TFIDF_Engine_init []))) = Inr ()
   \<and> fst (get_results (create_df_table (read_files TFIDF_Engine_init [])) [97]) = Inr []"
proof -
  let ?a = "read_files TFIDF_Engine_init []"
  have e: "documents (engine ?a) = []" "df_table (engine ?a) = []" "N (engine ?a) = 0"
    by (simp_all add: read_files_engine)
  show ?thesis
    using empty_corpus_no_error [OF e(1,2), of "[97]"]
    by (simp add: create_df_table_engine e(3))
qed

text \<open>
  C8.  For every query string, \<open>get_results\<close> does not change the corpus index, whether
  it returns or raises: the engine (\<open>N\<close>, \<open>df_table\<close>, \<open>term_vector_words\<close> and the list
  \<open>documents\<close>) is the same after the call, every object that was in the store before
  the call is unchanged, and so are the text, terms and term vector of every stored
  document.  The only new object is the document of the query.
\<close>

theorem get_results_frame_condition:
  assumes "list_all (\<lambda>r. r < length (store s)) (documents (engine s))"
  shows "engine (snd (get_results s query)) = engine s
         \<and> take (length (store s)) (store (snd (get_results s query))) = store s
         \<and> map ((!) (store (snd (get_results s query)))) (documents (engine (snd (get_results s query))))
             = map ((!) (store s)) (documents (engine s))"
proof -
  obtain r s' where g: "get_results s query = (r, s')"
    by (cases "get_results s query") blast
  have f: "engine s' = engine s" "length (store s') = Suc (length (store s))"
      "\<forall>a<length (store s). store s' ! a = store s ! a"
    using get_results_frame [OF g] by simp_all
  have "take (length (store s)) (store s') = store s"
    using f(2,3) by (simp add: list_eq_iff_nth_eq)
  moreover have "map ((!) (store s')) (documents (engine s)) = map ((!) (store s)) (documents (engine s))"
    using assms f(3) by (simp add: list_all_iff)
  ultimately show ?thesis
    by (simp add: g f(1))
qed

theorem get_results_frame_condition_witness:
  "engine (snd (get_results (snd (index_corpus example_files)) [97]))
     = engine (snd (index_corpus example_files))
   \<and> take 2 (store (snd (get_results (snd (index_corpus example_files)) [97])))
     = store (snd (index_corpus example_files))
   \<and> length (store (snd (get_results (snd (index_corpus example_files)) [97]))) = 3"
proof -
  obtain s where s: "index_corpus example_files = (Inr (), s)"
      "documents (engine s) = [0..<length example_files]"
      "length (store s) = length example_files"
    using index_corpus_ok [of example_files] by blast
  have v: "list_all (\<lambda>r. r < length (store s)) (documents (engine s))"
    by (simp add: s(2,3) list_all_iff)
  obtain r s' where g: "get_results s [97] = (r, s')"
    by (cases "get_results s [97]") blast
  have two: "length (store s) = 2"
    by (simp add: s(3) example_files_def)
  have three: "length (store s') = 3"
    using get_results_frame [OF g] by (simp add: two)
  have eq: "snd (index_corpus example_files) = s"
    by (simp add: s(1))
  show ?thesis
    unfolding eq
    using get_results_frame_condition [OF v, of "[97]"] three
    by (simp add: g two)
qed

text \<open>
  C9.  As stated the claim fails: \<open>query_loop\<close> runs \<open>for i in range(5)\<close> over the
  ranked list with no check on its length, and its handler catches only
  \<open>KeyboardInterrupt\<close> and \<open>EOFError\<close>.  On a corpus of one document the first query
  ends the loop with an uncaught \<open>IndexError\<close>.
\<close>

theorem query_loop_unchecked_index:
  "fst (query_loop (snd (index_corpus [[97]])) [[97]]) = Inl IndexError"
proof -
  obtain s where s: "index_corpus [[97]] = (Inr (), s)" "wf_index (engine s)"
      "documents (engine s) = [0..<length [[97::nat]]]"
    using index_corpus_ok [of "[[97]]"] by blast
  have "length (documents (engine s)) < 5"
    by (simp add: s(3))
  from query_loop_body_short [OF s(2) this] show ?thesis
    by (simp add: s(1) fst_query_loop del: query_loop_body.simps(2))
qed

text \<open>
  C9, amended.  On a well-formed index whose documents are objects of the store,
  \<open>query_loop\<close> displays exactly five results per query with no check on the number of
  documents.  With no query in the input it prints the welcome line, the prompt and the
  farewell, and ends normally.  With at least one query and a corpus of at least five
  documents it ends normally and prints, for every query in turn, the prompt, the
  heading and exactly five pairs of lines, the score and the text of the documents at
  positions \<open>0\<close> to \<open>4\<close> of the list that \<open>get_results\<close> returns for that query,
  then the last prompt and the farewell.  With a corpus of \<open>n < 5\<close> documents it
  prints, for the first query, the prompt, the heading and the \<open>n\<close> pairs of lines of
  the positions that exist, and ends there with an uncaught \<open>IndexError\<close>: the code
  neither clamps the count nor tests it.
\<close>

theorem query_loop_top_five:
  assumes "wf_index (engine s)"
    and "list_all (\<lambda>r. r < length (store s)) (documents (engine s))"
  shows "fst (query_loop s []) = Inr ()
         \<and> fst (snd (query_loop s [])) = [Print_welcome, Print_blank, Prompt, Print_so_long]
         \<and> fst (query_loop s (query # queries))
             = (if 5 \<le> length (documents (engine s)) then Inr () else Inl IndexError)
         \<and> fst (snd (query_loop s (query # queries)))
             = (if 5 \<le> length (documents (engine s))
                then [Print_welcome] @ concat (map (top_five s) (query # queries))
                       @ [Print_blank, Prompt, Print_so_long]
                else [Print_welcome, Print_blank, Prompt, Print_results]
                       @ concat (map (result_lines s (ranking s query))
                           [0..<length (documents (engine s))]))"
proof -
  have none: "fst (query_loop s []) = Inr ()"
      "fst (snd (query_loop s [])) = [Print_welcome, Print_blank, Prompt, Print_so_long]"
    by (simp_all add: query_loop_def)
  have some: "fst (query_loop s (query # queries))
             = (if 5 \<le> length (documents (engine s)) then Inr () else Inl IndexError)
         \<and> fst (snd (query_loop s (query # queries)))
             = (if 5 \<le> length (documents (engine s))
                then [Print_welcome] @ concat (map (top_five s) (query # queries))
                       @ [Print_blank, Prompt, Print_so_long]
                else [Print_welcome, Print_blank, Prompt, Print_results]
                       @ concat (map (result_lines s (ranking s query))
                           [0..<length (documents (engine s))]))"
  proof (cases "5 \<le> length (documents (engine s))")
    case True
    have "fst (query_loop_body s (query # queries) [Print_welcome]) = Inr ()
         \<and> fst (snd (query_loop_body s (query # queries) [Print_welcome]))
             = [Print_welcome] @ concat (map (top_five s) (query # queries))
                 @ [Print_blank, Prompt]"
      using assms True by (intro query_loop_body_events) simp_all
    then show ?thesis
      using True unfolding fst_query_loop query_loop_snd by simp
  next
    case False
    then have "length (documents (engine s)) < 5" by simp
    from query_loop_body_short_events [OF assms this, of query queries "[Print_welcome]"]
    show ?thesis
      using False unfolding fst_query_loop query_loop_snd by simp
  qed
  show ?thesis
    using none some by simp
qed

text \<open>
  On five files of one letter each the query \<open>"b"\<close> prints the second file first, with
  score \<open>1\<close>, then the four others with score \<open>0\<close>; on the corpus \<open>"a b"\<close>, \<open>"a"\<close> it
  prints the two documents and raises \<open>IndexError\<close>.
\<close>

theorem query_loop_top_five_witness:
  "fst (query_loop (snd (index_corpus five_files)) [[98]]) = Inr ()
   \<and> fst (snd (query_loop (snd (index_corpus five_files)) [[98]]))
       = [Print_welcome, Print_blank, Prompt, Print_results,
          Print_score 0 1, Print_document [98], Print_score 1 0, Print_document [97],
          Print_score 2 0, Print_document [99], Print_score 3 0, Print_document [100],
          Print_score 4 0, Print_document [101], Print_blank, Prompt, Print_so_long]
   \<and> fst (query_loop (snd (index_corpus example_files)) [[98]]) = Inl IndexError
   \<and> fst (snd (query_loop (snd (index_corpus example_files)) [[98]]))
       = [Print_welcome, Print_blank, Prompt, Print_results,
          Print_score 0 1, Print_document [97, 32, 98], Print_score 1 0, Print_document [97]]"
proof -
  obtain s where s: "index_corpus five_files = (Inr (), s)" "wf_index (engine s)"
      "list_all (\<lambda>r. r < length (store s)) (documents (engine s))"
      "documents (engine s) = [0, 1, 2, 3, 4]"
      "map (\<lambda>d. doc_text (store s ! d)) [0, 1, 2, 3, 4] = [[97], [98], [99], [100], [101]]"
      "ranking s [98] = [(1, 1), (0, 0), (0, 2), (0, 3), (0, 4)]"
    using five_ranking by (elim exE conjE)
  obtain t where t: "index_corpus example_files = (Inr (), t)" "wf_index (engine t)"
      "list_all (\<lambda>r. r < length (store t)) (documents (engine t))"
      "documents (engine t) = [0, 1]"
      "map (\<lambda>d. doc_text (store t ! d)) [0, 1] = [[97, 32, 98], [97]]"
      "ranking t [98] = [(1, 0), (0, 1)]"
    using example_ranking by (elim exE conjE)
  have five: "concat (map (top_five s) [[98]])
      = [Print_blank, Prompt, Print_results,
          Print_score 0 1, Print_document [98], Print_score 1 0, Print_document [97],
          Print_score 2 0, Print_document [99], Print_score 3 0, Print_document [100],
          Print_score 4 0, Print_document [101]]"
    using s(5) by (simp add: top_five_def result_lines_def s(4,6))
  have two: "concat (map (result_lines t (ranking t [98])) [0..<length (documents (engine t))])
      = [Print_score 0 1, Print_document [97, 32, 98], Print_score 1 0, Print_document [97]]"
    using t(5) by (simp add: result_lines_def t(4,6) upt_conv_Cons)
  have eq: "snd (index_corpus five_files) = s" "snd (index_corpus example_files) = t"
    by (simp_all add: s(1) t(1))
  show ?thesis
    unfolding eq
    using query_loop_top_five [OF s(2,3), of "[98]" "[]", unfolded five]
      query_loop_top_five [OF t(2,3), of "[98]" "[]", unfolded two]
    by (simp add: s(4) t(4))
qed

text \<open>
  C10.  For every query string on a well-formed index, \<open>get_results\<close> breaks ties by
  document index: of two result pairs with equal similarity, the one with the smaller
  document index comes first.  The pairs are generated in document order and the
  descending sort is stable.
\<close>

theorem get_results_ties_by_index:
  assumes "wf_index (engine s)"
  shows "\<exists>rs s'. get_results s query = (Inr rs, s')
           \<and> (\<forall>i j. i < j \<and> j < length rs \<and> fst (rs ! i) = fst (rs ! j)
                 \<longrightarrow> snd (rs ! i) < snd (rs ! j))"
proof -
  let ?rs = "sort_reverse fst (scores s query)"
  have "sorted_wrt (\<lambda>a b. fst b < fst a \<or> (fst a = fst b \<and> snd a < snd b)) ?rs"
    using scores_index_sorted by (rule sort_reverse_ties)
  then have st: "\<forall>i j. i < j \<longrightarrow> j < length ?rs \<longrightarrow>
      fst (?rs ! j) < fst (?rs ! i) \<or> (fst (?rs ! i) = fst (?rs ! j) \<and> snd (?rs ! i) < snd (?rs ! j))"
    by (simp add: sorted_wrt_iff_nth_less)
  have "snd (?rs ! i) < snd (?rs ! j)"
    if "i < j \<and> j < length ?rs \<and> fst (?rs ! i) = fst (?rs ! j)" for i j
  proof -
    have "fst (?rs ! j) < fst (?rs ! i)
        \<or> (fst (?rs ! i) = fst (?rs ! j) \<and> snd (?rs ! i) < snd (?rs ! j))"
      using st that by blast
    then show ?thesis
      using that by simp
  qed
  then show ?thesis
    by (simp add: get_results_ok [OF assms])
qed

theorem get_results_ties_by_index_witness:
  "\<exists>rs s'. get_results (snd (index_corpus example_files)) [97] = (Inr rs, s')
        \<and> (\<forall>i j. i < j \<and> j < length rs \<and> fst (rs ! i) = fst (rs ! j)
              \<longrightarrow> snd (rs ! i) < snd (rs ! j))"
proof -
  obtain s where s: "index_corpus example_files = (Inr (), s)" "wf_index (engine s)"
    using index_corpus_ok [of example_files] by blast
  have eq: "snd (index_corpus example_files) = s"
    by (simp add: s(1))
  show ?thesis
    unfolding eq
    using get_results_ties_by_index [OF s(2), of "[97]"] .
qed

end
